theory Spec2Isabelle
  imports Main "HOL-Library.Word" "HOL-Library.AList"
begin

section \<open>Python values\<close>

text \<open>
  The payloads handled by \<^verbatim>\<open>chat_handler.py\<close> and \<^verbatim>\<open>visualization.py\<close> are plain Python
  trees as produced by \<^verbatim>\<open>MessageToDict\<close> and \<^verbatim>\<open>json.loads\<close>: \<^verbatim>\<open>None\<close>, booleans,
  unbounded integers, floats, strings, lists and string-keyed dictionaries.  A dictionary
  is an association list in insertion order.  Floats are kept abstract (type \<open>'f\<close>); the
  three float operations the code performs are supplied by a record of type
  \<open>'f float_ops\<close>.
\<close>

datatype 'f json =
    JNull
  | JBool bool
  | JInt int
  | JFloat 'f
  | JStr string
  | JList "'f json list"
  | JDict "(string \<times> 'f json) list"

type_synonym 'f dict = "(string \<times> 'f json) list"

record 'f float_ops =
  is_zero :: "'f \<Rightarrow> bool"         \<comment> \<open>\<^verbatim>\<open>v == 0.0\<close>, i.e. \<^verbatim>\<open>not v\<close>\<close>
  in_seconds :: "'f \<Rightarrow> bool"      \<comment> \<open>\<^verbatim>\<open>1e8 < v < 3e9\<close>\<close>
  times_1000 :: "'f \<Rightarrow> 'f"        \<comment> \<open>\<^verbatim>\<open>v * 1000\<close>\<close>

text \<open>
  The exceptions raised on the paths modelled; \<open>ConversionError\<close> stands for whatever
  \<^verbatim>\<open>MessageToDict\<close> raises.  Every handler of the code catches \<^verbatim>\<open>Exception\<close>, so the kind
  of an exception never decides a result.
\<close>

datatype exn = TypeError | AttributeError | KeyError | ConversionError string

text \<open>Python truthiness (\<^verbatim>\<open>bool(v)\<close>).\<close>

fun truthy :: "'f float_ops \<Rightarrow> 'f json \<Rightarrow> bool" where
  "truthy fl JNull = False"
| "truthy fl (JBool b) = b"
| "truthy fl (JInt n) = (n \<noteq> 0)"
| "truthy fl (JFloat x) = (\<not> is_zero fl x)"
| "truthy fl (JStr s) = (s \<noteq> [])"
| "truthy fl (JList xs) = (xs \<noteq> [])"
| "truthy fl (JDict d) = (d \<noteq> [])"

text \<open>\<^verbatim>\<open>k in d\<close> and \<^verbatim>\<open>d.get(k)\<close> for a string key.\<close>

definition has_key :: "'f dict \<Rightarrow> string \<Rightarrow> bool" where
  "has_key d k = (map_of d k \<noteq> None)"

definition get_or :: "'f dict \<Rightarrow> string \<Rightarrow> 'f json \<Rightarrow> 'f json" where
  "get_or d k dflt = (case map_of d k of None \<Rightarrow> dflt | Some v \<Rightarrow> v)"

text \<open>
  \<^verbatim>\<open>d.get(key)\<close> where the key is itself a Python value: a list or a dictionary is
  unhashable (\<^verbatim>\<open>TypeError\<close>); any other non-string key is hashable but equal to no string.
\<close>

fun py_get :: "'f dict \<Rightarrow> 'f json \<Rightarrow> exn + 'f json option" where
  "py_get d (JStr k) = Inr (map_of d k)"
| "py_get d (JList _) = Inl TypeError"
| "py_get d (JDict _) = Inl TypeError"
| "py_get d _ = Inr None"

text \<open>\<^verbatim>\<open>needle in haystack\<close> on strings.\<close>

fun starts_with :: "string \<Rightarrow> string \<Rightarrow> bool" where
  "starts_with s [] = True"
| "starts_with [] (p # ps) = False"
| "starts_with (c # cs) (p # ps) = (c = p \<and> starts_with cs ps)"

fun contains :: "string \<Rightarrow> string \<Rightarrow> bool" where
  "contains [] needle = (needle = [])"
| "contains (c # cs) needle = (starts_with (c # cs) needle \<or> contains cs needle)"

section \<open>Variant unwrap: \<^verbatim>\<open>ChatHandler._extract_proto_value\<close>\<close>

definition value_tags :: "string list" where
  "value_tags = [''stringValue'', ''numberValue'', ''boolValue'', ''integerValue'']"

text \<open>The \<^verbatim>\<open>for key in (...)\<close> loop on a dictionary: the value under the first tag present.\<close>

fun first_tag :: "string list \<Rightarrow> 'f dict \<Rightarrow> 'f json option" where
  "first_tag [] d = None"
| "first_tag (k # ks) d =
     (case map_of d k of Some v \<Rightarrow> Some v | None \<Rightarrow> first_tag ks d)"

definition extract_proto_value :: "'f float_ops \<Rightarrow> 'f json \<Rightarrow> exn + 'f json" where
  "extract_proto_value fl val_wrapper =
     (if \<not> truthy fl val_wrapper then Inr JNull
      else case val_wrapper of
        JDict d \<Rightarrow>
          (case first_tag value_tags d of
             Some v \<Rightarrow> Inr v
           | None \<Rightarrow>
               if has_key d ''nullValue'' then Inr JNull
               else if length d = 0 then Inr JNull
               else (case d of [] \<Rightarrow> Inr JNull | (_, v) # _ \<Rightarrow> Inr v))
      | JStr s \<Rightarrow>
          \<comment> \<open>\<^verbatim>\<open>in\<close> is the substring test; indexing a string by a string raises\<close>
          if list_ex (contains s) value_tags then Inl TypeError
          else if contains s ''nullValue'' then Inr JNull
          else Inl AttributeError
      | JList xs \<Rightarrow>
          if list_ex (\<lambda>k. JStr k \<in> set xs) value_tags then Inl TypeError
          else if JStr ''nullValue'' \<in> set xs then Inr JNull
          else Inl AttributeError
      | _ \<Rightarrow> Inl TypeError)"

section \<open>External library calls\<close>

text \<open>
  The code calls library functions whose results it only inspects: \<^verbatim>\<open>json.loads\<close>
  (here \<open>None\<close> when it raises \<^verbatim>\<open>JSONDecodeError\<close>/\<^verbatim>\<open>ValueError\<close>), the two regular
  expression calls with the fenced-block pattern, and protobuf's \<^verbatim>\<open>MessageToDict\<close> on a raw
  message of type \<open>'pb\<close> (\<open>Inl\<close> when it raises).  They are parameters of the model.
\<close>

record ('f, 'pb) library =
  json_loads :: "string \<Rightarrow> 'f json option"
  findall_fenced :: "string \<Rightarrow> string list"
    \<comment> \<open>\<^verbatim>\<open>re.findall(fenced_pattern, text, flags=re.DOTALL)\<close>\<close>
  sub_fenced :: "string \<Rightarrow> string \<Rightarrow> string"
    \<comment> \<open>\<^verbatim>\<open>re.sub(r'```(?:json|vega-lite)?\s*' + re.escape(match) + r'\s*```', '', text)\<close>\<close>
  MessageToDict :: "'pb \<Rightarrow> exn + 'f dict"

section \<open>Strings\<close>

text \<open>Characters for which \<^verbatim>\<open>str.isspace\<close> holds (and which \<^verbatim>\<open>\s\<close> matches).\<close>

definition is_space :: "char \<Rightarrow> bool" where
  "is_space c = (of_char c \<in> {9, 10, 11, 12, 13, 28, 29, 30, 31, 32, 133, 160 :: nat})"

definition lstrip :: "string \<Rightarrow> string" where
  "lstrip s = dropWhile is_space s"

definition rstrip :: "string \<Rightarrow> string" where
  "rstrip s = rev (dropWhile is_space (rev s))"

definition strip :: "string \<Rightarrow> string" where
  "strip s = rstrip (lstrip s)"

text \<open>\<^verbatim>\<open>sep.join(parts)\<close>.\<close>

fun join :: "string \<Rightarrow> string list \<Rightarrow> string" where
  "join sep [] = []"
| "join sep [p] = p"
| "join sep (p # q # ps) = p @ sep @ join sep (q # ps)"

text \<open>\<^verbatim>\<open>s.replace(old, new)\<close>: every non-overlapping occurrence, from the left.\<close>

function str_replace :: "string \<Rightarrow> string \<Rightarrow> string \<Rightarrow> string" where
  "str_replace s old new =
     (if old = [] then new @ concat (map (\<lambda>c. c # new) s)
      else if s = [] then []
      else if starts_with s old then new @ str_replace (drop (length old) s) old new
      else hd s # str_replace (tl s) old new)"
  by pat_completeness auto
termination
  by (relation "measure (\<lambda>(s, old, new). length s)") auto

declare str_replace.simps [simp del]

text \<open>Decimal digits of a natural number, for \<^verbatim>\<open>f"col_{i}"\<close>.\<close>

fun string_of_nat :: "nat \<Rightarrow> string" where
  "string_of_nat n =
     (if n < 10 then [''0123456789'' ! n]
      else string_of_nat (n div 10) @ [''0123456789'' ! (n mod 10)])"

declare string_of_nat.simps [simp del]

section \<open>Display messages: \<^verbatim>\<open>ChatMessage\<close>\<close>

type_synonym bytes = "8 word list"

text \<open>The dictionary \<^verbatim>\<open>{"columns": [...], "rows": [...]}\<close> built by the table decoder.\<close>

record 'f table =
  columns :: "'f json list"
  rows :: "'f json list list"

record 'f ChatMessage =
  role :: string
  content :: string
  message_type :: string
  data :: "'f table option"
  chart_spec :: "'f json option"
  chart_image :: "bytes option"
  sql_query :: "string option"
  metadata :: "'f dict"

text \<open>The constructor with the dataclass defaults filled in.\<close>

definition new_ChatMessage :: "string \<Rightarrow> string \<Rightarrow> string \<Rightarrow> 'f ChatMessage" where
  "new_ChatMessage r c t =
     \<lparr>role = r, content = c, message_type = t, data = None, chart_spec = None,
      chart_image = None, sql_query = None, metadata = []\<rparr>"

section \<open>Tabular results: \<^verbatim>\<open>ChatHandler._parse_data_result\<close>\<close>

text \<open>Column names from \<^verbatim>\<open>schema.fields\<close>; field number \<open>i\<close> without a name is \<^verbatim>\<open>col_i\<close>.\<close>

fun column_names :: "nat \<Rightarrow> 'f json list \<Rightarrow> exn + 'f json list" where
  "column_names i [] = Inr []"
| "column_names i (f # fs) =
     (case f of
        JDict d \<Rightarrow>
          (case column_names (Suc i) fs of
             Inl e \<Rightarrow> Inl e
           | Inr names \<Rightarrow> Inr (get_or d ''name'' (JStr (''col_'' @ string_of_nat i)) # names))
      | _ \<Rightarrow> Inl AttributeError)"

definition schema_columns :: "'f float_ops \<Rightarrow> 'f dict \<Rightarrow> exn + 'f json list" where
  "schema_columns fl dr_dict =
     (case get_or dr_dict ''schema'' (JDict []) of
        JDict schema \<Rightarrow>
          (let fields = get_or schema ''fields'' (JList []) in
           if truthy fl fields then
             (case fields of
                JList fs \<Rightarrow> column_names 0 fs
              | JStr _ \<Rightarrow> Inl AttributeError
              | JDict _ \<Rightarrow> Inl AttributeError
              | _ \<Rightarrow> Inl TypeError)
           else Inr [])
      | _ \<Rightarrow> Inl AttributeError)"

text \<open>
  The cells of a row in protobuf Struct format: for each column,
  \<^verbatim>\<open>row["fields"].get(col_name, {})\<close> unwrapped by \<open>extract_proto_value\<close>.
\<close>

fun struct_cells :: "'f float_ops \<Rightarrow> 'f json \<Rightarrow> 'f json list \<Rightarrow> exn + 'f json list" where
  "struct_cells fl row_fields [] = Inr []"
| "struct_cells fl row_fields (col_name # cols) =
     (case row_fields of
        JDict d \<Rightarrow>
          (case py_get d col_name of
             Inl e \<Rightarrow> Inl e
           | Inr found \<Rightarrow>
               (case extract_proto_value fl (case found of None \<Rightarrow> JDict [] | Some w \<Rightarrow> w) of
                  Inl e \<Rightarrow> Inl e
                | Inr val \<Rightarrow>
                    (case struct_cells fl row_fields cols of
                       Inl e \<Rightarrow> Inl e
                     | Inr vals \<Rightarrow> Inr (val # vals))))
      | _ \<Rightarrow> Inl AttributeError)"

text \<open>The cells of a row in direct format: \<^verbatim>\<open>[row.get(c) for c in columns]\<close>.\<close>

fun direct_cells :: "'f dict \<Rightarrow> 'f json list \<Rightarrow> exn + 'f json list" where
  "direct_cells row [] = Inr []"
| "direct_cells row (c # cols) =
     (case py_get row c of
        Inl e \<Rightarrow> Inl e
      | Inr found \<Rightarrow>
          (case direct_cells row cols of
             Inl e \<Rightarrow> Inl e
           | Inr vals \<Rightarrow> Inr ((case found of None \<Rightarrow> JNull | Some v \<Rightarrow> v) # vals)))"

text \<open>The branch \<^verbatim>\<open>isinstance(row, dict)\<close>, the same in both loops.\<close>

definition dict_row ::
  "'f float_ops \<Rightarrow> 'f table \<Rightarrow> 'f dict \<Rightarrow> exn + 'f table" where
  "dict_row fl result row =
     (case map_of row ''fields'' of
        Some row_fields \<Rightarrow>
          (case struct_cells fl row_fields (columns result) of
             Inl e \<Rightarrow> Inl e
           | Inr row_values \<Rightarrow> Inr (result\<lparr>rows := rows result @ [row_values]\<rparr>))
      | None \<Rightarrow>
          (let result1 = (if columns result = []
                          then result\<lparr>columns := map (\<lambda>(k, v). JStr k) row\<rparr> else result)
           in case direct_cells row (columns result1) of
                Inl e \<Rightarrow> Inl e
              | Inr row_values \<Rightarrow> Inr (result1\<lparr>rows := rows result1 @ [row_values]\<rparr>)))"

text \<open>The loop over \<^verbatim>\<open>data\<close>: dictionaries and lists are rows, anything else is skipped.\<close>

fun data_loop :: "'f float_ops \<Rightarrow> 'f table \<Rightarrow> 'f json list \<Rightarrow> exn + 'f table" where
  "data_loop fl result [] = Inr result"
| "data_loop fl result (row # rest) =
     (case row of
        JDict r \<Rightarrow>
          (case dict_row fl result r of
             Inl e \<Rightarrow> Inl e
           | Inr result1 \<Rightarrow> data_loop fl result1 rest)
      | JList xs \<Rightarrow> data_loop fl (result\<lparr>rows := rows result @ [xs]\<rparr>) rest
      | _ \<Rightarrow> data_loop fl result rest)"

text \<open>The loop over \<^verbatim>\<open>formattedData\<close>: only dictionaries are rows.\<close>

fun formatted_loop :: "'f float_ops \<Rightarrow> 'f table \<Rightarrow> 'f json list \<Rightarrow> exn + 'f table" where
  "formatted_loop fl result [] = Inr result"
| "formatted_loop fl result (row # rest) =
     (case row of
        JDict r \<Rightarrow>
          (case dict_row fl result r of
             Inl e \<Rightarrow> Inl e
           | Inr result1 \<Rightarrow> formatted_loop fl result1 rest)
      | _ \<Rightarrow> formatted_loop fl result rest)"

text \<open>The table after the schema and the primary \<^verbatim>\<open>data\<close> field have been read.\<close>

definition primary_rows :: "'f float_ops \<Rightarrow> 'f dict \<Rightarrow> exn + 'f table" where
  "primary_rows fl dr_dict =
     (case schema_columns fl dr_dict of
        Inl e \<Rightarrow> Inl e
      | Inr cols \<Rightarrow>
          (let result = \<lparr>columns = cols, rows = []\<rparr>;
               data_rows = get_or dr_dict ''data'' (JList [])
           in case data_rows of
                JList rs \<Rightarrow> if truthy fl data_rows then data_loop fl result rs else Inr result
              | _ \<Rightarrow> Inr result))"

text \<open>The fallback block \<^verbatim>\<open>if not result["rows"]: ...\<close>.\<close>

definition fallback_rows :: "'f float_ops \<Rightarrow> 'f dict \<Rightarrow> 'f table \<Rightarrow> exn + 'f table" where
  "fallback_rows fl dr_dict result =
     (if rows result = [] then
        (let formatted_rows = get_or dr_dict ''formattedData'' (JList [])
         in case formatted_rows of
              JList rs \<Rightarrow>
                if truthy fl formatted_rows then formatted_loop fl result rs else Inr result
            | _ \<Rightarrow> Inr result)
      else Inr result)"

text \<open>The body of the \<^verbatim>\<open>try\<close> once \<^verbatim>\<open>MessageToDict\<close> has returned \<open>dr_dict\<close>.\<close>

definition decode_dict :: "'f float_ops \<Rightarrow> 'f dict \<Rightarrow> exn + 'f table option" where
  "decode_dict fl dr_dict =
     (case primary_rows fl dr_dict of
        Inl e \<Rightarrow> Inl e
      | Inr result1 \<Rightarrow>
          (case fallback_rows fl dr_dict result1 of
             Inl e \<Rightarrow> Inl e
           | Inr result \<Rightarrow>
               if columns result \<noteq> [] \<or> rows result \<noteq> [] then Inr (Some result)
               else Inr None))"

text \<open>Any exception inside the \<^verbatim>\<open>try\<close> is logged and \<^verbatim>\<open>None\<close> is returned.\<close>

definition parse_data_result ::
  "'f float_ops \<Rightarrow> ('f, 'pb) library \<Rightarrow> 'pb \<Rightarrow> 'f table option" where
  "parse_data_result fl lib data_result =
     (case MessageToDict lib data_result of
        Inl e \<Rightarrow> None
      | Inr dr_dict \<Rightarrow>
          (case decode_dict fl dr_dict of
             Inl e \<Rightarrow> None
           | Inr res \<Rightarrow> res))"

section \<open>Embedded chart specs: \<^verbatim>\<open>ChatHandler._extract_chart_from_text\<close>\<close>

text \<open>
  \<^verbatim>\<open>isinstance(parsed, dict) and ("encoding" in parsed or "mark" in parsed)\<close>: the
  dictionary when the test holds.
\<close>

definition chart_like :: "'f json \<Rightarrow> 'f dict option" where
  "chart_like parsed =
     (case parsed of
        JDict d \<Rightarrow> if has_key d ''encoding'' \<or> has_key d ''mark'' then Some d else None
      | _ \<Rightarrow> None)"

text \<open>The three statements that remove an accepted fenced block from the text.\<close>

definition remove_fenced :: "('f, 'pb) library \<Rightarrow> string \<Rightarrow> string \<Rightarrow> string" where
  "remove_fenced lib match txt =
     (let t1 = str_replace txt (''```json'' @ [CHR 0x0A] @ match @ [CHR 0x0A] @ ''```'') [];
          t2 = str_replace t1 (''```'' @ match @ ''```'') []
      in sub_fenced lib match t2)"

text \<open>
  Strategy 1, the loop over the fenced matches.  The result is the text and the chart
  spec (\<open>None\<close> while none was accepted).
\<close>

fun fenced_loop ::
  "('f, 'pb) library \<Rightarrow> string \<Rightarrow> string list \<Rightarrow> string \<times> 'f dict option" where
  "fenced_loop lib txt [] = (txt, None)"
| "fenced_loop lib txt (match # matches) =
     (case json_loads lib match of
        None \<Rightarrow> fenced_loop lib txt matches
      | Some parsed \<Rightarrow>
          (case chart_like parsed of
             Some spec \<Rightarrow> (remove_fenced lib match txt, Some spec)
           | None \<Rightarrow> fenced_loop lib txt matches))"

text \<open>\<^verbatim>\<open>[m.start() for m in re.finditer(r'\{', text)]\<close>.\<close>

definition brace_positions :: "string \<Rightarrow> nat list" where
  "brace_positions txt = filter (\<lambda>i. txt ! i = CHR ''{'') [0..<length txt]"

text \<open>
  The manual search for the matching closing brace: \<open>find_close remaining depth i\<close> is the
  loop \<^verbatim>\<open>for i, ch in enumerate(remaining)\<close> from index \<open>i\<close> on; it yields \<open>i + 1\<close> for the
  first \<^verbatim>\<open>}\<close> that brings the depth to zero.
\<close>

fun find_close :: "string \<Rightarrow> int \<Rightarrow> nat \<Rightarrow> nat option" where
  "find_close [] depth i = None"
| "find_close (ch # cs) depth i =
     (if ch = CHR ''{'' then find_close cs (depth + 1) (Suc i)
      else if ch = CHR ''}'' then
        (if depth - 1 = 0 then Some (Suc i) else find_close cs (depth - 1) (Suc i))
      else find_close cs depth (Suc i))"

text \<open>Strategy 2, the loop over the positions of \<^verbatim>\<open>{\<close>.\<close>

fun brace_loop ::
  "('f, 'pb) library \<Rightarrow> string \<Rightarrow> nat list \<Rightarrow> string \<times> 'f dict option" where
  "brace_loop lib txt [] = (txt, None)"
| "brace_loop lib txt (start_pos # positions) =
     (let remaining = drop start_pos txt in
      if \<not> contains remaining ''\"mark\"'' \<and> \<not> contains remaining ''\"encoding\"''
      then brace_loop lib txt positions
      else case json_loads lib remaining of
        Some parsed \<Rightarrow>
          (case chart_like parsed of
             Some spec \<Rightarrow> (rstrip (take start_pos txt), Some spec)
           | None \<Rightarrow> brace_loop lib txt positions)
      | None \<Rightarrow>
          (let end_pos = (case find_close remaining 0 0 of
                            None \<Rightarrow> start_pos | Some n \<Rightarrow> start_pos + n)
           in if end_pos > start_pos then
                (let json_candidate = drop start_pos (take end_pos txt)
                 in case json_loads lib json_candidate of
                      None \<Rightarrow> brace_loop lib txt positions
                    | Some parsed \<Rightarrow>
                        (case chart_like parsed of
                           Some spec \<Rightarrow>
                             (strip (take start_pos txt @ drop end_pos txt), Some spec)
                         | None \<Rightarrow> brace_loop lib txt positions))
              else brace_loop lib txt positions))"

text \<open>
  The final cleanup
  \<^verbatim>\<open>re.sub(r'(?:Here(?:\'s| is) (?:a |the )?(?:bar |line |pie )?chart[^.]*?:\s*$)', '', text,
  flags=re.IGNORECASE)\<close>.  The pattern ends in \<^verbatim>\<open>\s*$\<close>, so a match runs to the end of the
  text, and the substitution cuts the text at the leftmost position where the pattern
  matches.
\<close>

definition lower :: "char \<Rightarrow> char" where
  "lower c =
     (case map_of (zip ''ABCDEFGHIJKLMNOPQRSTUVWXYZ'' ''abcdefghijklmnopqrstuvwxyz'') c of
        None \<Rightarrow> c
      | Some l \<Rightarrow> l)"

text \<open>Strip a literal (given in lower case) from the front, ignoring case.\<close>

fun strip_ci :: "string \<Rightarrow> string \<Rightarrow> string option" where
  "strip_ci [] s = Some s"
| "strip_ci (p # ps) [] = None"
| "strip_ci (p # ps) (c # cs) = (if lower c = p then strip_ci ps cs else None)"

text \<open>\<^verbatim>\<open>[^.]*?:\s*$\<close>: a colon with no full stop before it and only whitespace after it.\<close>

fun leadin_tail :: "string \<Rightarrow> bool" where
  "leadin_tail [] = False"
| "leadin_tail (c # cs) =
     ((c = CHR '':'' \<and> list_all is_space cs) \<or> (c \<noteq> CHR ''.'' \<and> leadin_tail cs))"

definition leadin_match :: "string \<Rightarrow> bool" where
  "leadin_match s =
     list_ex (\<lambda>verb. list_ex (\<lambda>article. list_ex (\<lambda>kind.
        case strip_ci (''here'' @ verb @ '' '' @ article @ kind @ ''chart'') s of
          None \<Rightarrow> False
        | Some tail \<Rightarrow> leadin_tail tail)
       [''bar '', ''line '', ''pie '', '''']) [''a '', ''the '', '''']) [[CHR 0x27, CHR ''s''], '' is'']"

fun sub_leadin :: "string \<Rightarrow> string" where
  "sub_leadin [] = []"
| "sub_leadin (c # cs) = (if leadin_match (c # cs) then [] else c # sub_leadin cs)"

definition extract_chart_from_text ::
  "('f, 'pb) library \<Rightarrow> string \<Rightarrow> string \<times> 'f dict option" where
  "extract_chart_from_text lib txt =
     (let (t1, spec1) = fenced_loop lib txt (findall_fenced lib txt);
          (t2, chart_spec) = (if spec1 = None then brace_loop lib t1 (brace_positions t1)
                              else (t1, spec1))
      in (strip (sub_leadin t2), chart_spec))"

section \<open>Inbound protocol messages\<close>

text \<open>
  The messages of the SDK, as far as the parser reads them.  A sub-message that is unset
  (and so falsy) is \<open>None\<close>.  \<open>progress_event\<close> holds \<^verbatim>\<open>str(analysis_msg.progress_event)\<close>.
\<close>

record user_message =
  user_text :: string

record text_message =
  parts :: "string list"

record 'pb data_message =
  generated_sql :: string
  result :: "'pb option"

record blob =
  blob_data :: bytes

record ('f, 'pb) chart_result =
  pb :: 'pb
  vega_config :: "'f dict"
  image :: "blob option"

record ('f, 'pb) chart_message =
  chart_result :: "('f, 'pb) chart_result option"

record analysis_message =
  progress_event :: "string option"

record error_message =
  error_text :: string

record ('f, 'pb) system_message =
  sys_text :: "text_message option"
  sys_data :: "'pb data_message option"
  sys_chart :: "('f, 'pb) chart_message option"
  sys_analysis :: "analysis_message option"
  sys_error :: "error_message option"

record ('f, 'pb) message =
  user_message :: "user_message option"
  system_message :: "('f, 'pb) system_message option"

section \<open>The per-message parser: \<^verbatim>\<open>ChatHandler._parse_message\<close>\<close>

definition vega_lite_v5 :: string where
  "vega_lite_v5 = ''https://vega.github.io/schema/vega-lite/v5.json''"

text \<open>\<^verbatim>\<open>if '$schema' not in spec: spec['$schema'] = ...\<close> on a dictionary.\<close>

definition ensure_schema :: "'f dict \<Rightarrow> 'f dict" where
  "ensure_schema spec =
     (if has_key spec ''$schema'' then spec else spec @ [(''$schema'', JStr vega_lite_v5)])"

definition text_part ::
  "('f, 'pb) library \<Rightarrow> ('f, 'pb) system_message \<Rightarrow> 'f ChatMessage list" where
  "text_part lib sys_msg =
     (case sys_text sys_msg of
        None \<Rightarrow> []
      | Some t \<Rightarrow>
          if parts t = [] then []
          else let txt = join '' '' (parts t) in
            if strip txt = [] then []
            else let (clean_text, text_chart_spec) = extract_chart_from_text lib txt in
              (case text_chart_spec of
                 None \<Rightarrow> []
               | Some spec \<Rightarrow>
                   if spec \<noteq> [] then
                     [(new_ChatMessage ''assistant'' [] ''chart'')
                        \<lparr>chart_spec := Some (JDict (ensure_schema spec))\<rparr>]
                   else [])
              @ (if strip clean_text \<noteq> []
                 then [new_ChatMessage ''assistant'' clean_text ''text''] else []))"

definition data_part ::
  "'f float_ops \<Rightarrow> ('f, 'pb) library \<Rightarrow> ('f, 'pb) system_message \<Rightarrow> 'f ChatMessage list" where
  "data_part fl lib sys_msg =
     (case sys_data sys_msg of
        None \<Rightarrow> []
      | Some data_msg \<Rightarrow>
          (let sql = (if generated_sql data_msg \<noteq> [] then Some (generated_sql data_msg)
                      else None)
           in (case sql of
                 None \<Rightarrow> []
               | Some q \<Rightarrow> [(new_ChatMessage ''assistant'' q ''sql'')\<lparr>sql_query := Some q\<rparr>])
              @ (case result data_msg of
                   None \<Rightarrow> []
                 | Some data_result \<Rightarrow>
                     (case parse_data_result fl lib data_result of
                        None \<Rightarrow> []
                      | Some data_dict \<Rightarrow>
                          [(new_ChatMessage ''assistant'' [] ''data'')
                             \<lparr>data := Some data_dict, sql_query := sql\<rparr>]))))"

text \<open>
  The \<^verbatim>\<open>try\<close> block of the chart part, from \<^verbatim>\<open>cr_dict.get('vegaConfig', {})\<close> on: the
  spec to emit, or \<open>None\<close> when it is falsy or an exception was caught.
\<close>

definition vega_spec :: "'f float_ops \<Rightarrow> 'f dict \<Rightarrow> 'f json option" where
  "vega_spec fl cr_dict =
     (let spec = get_or cr_dict ''vegaConfig'' (JDict []) in
      if \<not> truthy fl spec then None
      else case spec of
        JDict d \<Rightarrow> Some (JDict (ensure_schema d))
      | JStr s \<Rightarrow> if contains s ''$schema'' then Some spec else None
      | JList xs \<Rightarrow> if JStr ''$schema'' \<in> set xs then Some spec else None
      | _ \<Rightarrow> None)"

definition chart_part ::
  "'f float_ops \<Rightarrow> ('f, 'pb) library \<Rightarrow> ('f, 'pb) system_message \<Rightarrow> 'f ChatMessage list" where
  "chart_part fl lib sys_msg =
     (case sys_chart sys_msg of
        None \<Rightarrow> []
      | Some chart \<Rightarrow>
          (case chart_result chart of
             None \<Rightarrow> []
           | Some cr \<Rightarrow>
               (if vega_config cr \<noteq> [] then
                  (case MessageToDict lib (pb cr) of
                     Inl e \<Rightarrow> []
                   | Inr cr_dict \<Rightarrow>
                       (case vega_spec fl cr_dict of
                          None \<Rightarrow> []
                        | Some spec \<Rightarrow>
                            [(new_ChatMessage ''assistant'' [] ''chart'')
                               \<lparr>chart_spec := Some spec\<rparr>]))
                else [])
               @ (case image cr of
                    None \<Rightarrow> []
                  | Some img \<Rightarrow>
                      if blob_data img \<noteq> [] then
                        [(new_ChatMessage ''assistant'' [] ''chart'')
                           \<lparr>chart_image := Some (blob_data img)\<rparr>]
                      else [])))"

definition analysis_part :: "('f, 'pb) system_message \<Rightarrow> 'f ChatMessage list" where
  "analysis_part sys_msg =
     (case sys_analysis sys_msg of
        None \<Rightarrow> []
      | Some analysis_msg \<Rightarrow>
          (case progress_event analysis_msg of
             None \<Rightarrow> []
           | Some ev \<Rightarrow> [new_ChatMessage ''assistant'' ev ''reasoning'']))"

definition error_part :: "('f, 'pb) system_message \<Rightarrow> 'f ChatMessage list" where
  "error_part sys_msg =
     (case sys_error sys_msg of
        None \<Rightarrow> []
      | Some err \<Rightarrow>
          if error_text err \<noteq> [] then [new_ChatMessage ''assistant'' (error_text err) ''error'']
          else [])"

definition parse_message ::
  "'f float_ops \<Rightarrow> ('f, 'pb) library \<Rightarrow> ('f, 'pb) message \<Rightarrow> 'f ChatMessage list" where
  "parse_message fl lib msg =
     (if (case user_message msg of None \<Rightarrow> False | Some u \<Rightarrow> user_text u \<noteq> []) then []
      else case system_message msg of
        None \<Rightarrow> []
      | Some sys_msg \<Rightarrow>
          text_part lib sys_msg @ data_part fl lib sys_msg @ chart_part fl lib sys_msg
          @ analysis_part sys_msg @ error_part sys_msg)"

section \<open>The response stream: \<^verbatim>\<open>ChatHandler._process_chat_response\<close>\<close>

text \<open>
  Pulling the next element of the response stream either yields a message or raises; the
  end of the list is the end of the stream.  \<open>Raise s\<close> carries \<^verbatim>\<open>str(e)\<close>.  Elements
  after a \<open>Raise\<close> are what the backend would have sent had the stream not failed.
\<close>

datatype ('f, 'pb) stream_item = Yield "('f, 'pb) message" | Raise string

definition stream_error :: "string \<Rightarrow> 'f ChatMessage" where
  "stream_error error_msg = new_ChatMessage ''assistant'' (''Error: '' @ error_msg) ''error''"

text \<open>The \<^verbatim>\<open>for\<close> loop inside the \<^verbatim>\<open>try\<close>, with the \<^verbatim>\<open>except\<close> clause as its exit on \<open>Raise\<close>.\<close>

fun consume ::
  "'f float_ops \<Rightarrow> ('f, 'pb) library \<Rightarrow> 'f ChatMessage list \<Rightarrow> ('f, 'pb) stream_item list
   \<Rightarrow> 'f ChatMessage list" where
  "consume fl lib messages [] = messages"
| "consume fl lib messages (Yield response_msg # stream) =
     consume fl lib (messages @ parse_message fl lib response_msg) stream"
| "consume fl lib messages (Raise e # stream) = messages @ [stream_error e]"

text \<open>
  The argument is the outcome of \<^verbatim>\<open>self.client.chat(request=request)\<close>: \<open>Inl\<close> when the call
  itself raises, otherwise the response stream.
\<close>

definition process_chat_response ::
  "'f float_ops \<Rightarrow> ('f, 'pb) library \<Rightarrow> string + ('f, 'pb) stream_item list
   \<Rightarrow> 'f ChatMessage list" where
  "process_chat_response fl lib chat =
     (case chat of
        Inl e \<Rightarrow> [] @ [stream_error e]
      | Inr response_stream \<Rightarrow> consume fl lib [] response_stream)"

section \<open>Chart-spec normalizer: \<^verbatim>\<open>visualization._clean_vega_spec\<close>\<close>

text \<open>
  The normalizer works on a deep copy of its argument and mutates it in place; the model
  returns the updated dictionary.  \<^verbatim>\<open>d[k] = v\<close> is \<open>AList.update k v d\<close> (the entry keeps
  its place, a new key goes to the end) and \<^verbatim>\<open>del d[k]\<close> is \<open>AList.delete k d\<close>.
\<close>

text \<open>
  \<^verbatim>\<open>any("window" in t or "sort" in t for t in transforms if isinstance(t, dict))\<close>.
  Iterating a string or a dictionary yields strings, never a dictionary; a number, a
  boolean or \<^verbatim>\<open>None\<close> is not iterable.
\<close>

definition has_window :: "'f json \<Rightarrow> exn + bool" where
  "has_window transforms =
     (case transforms of
        JList ts \<Rightarrow>
          Inr (list_ex (\<lambda>t. case t of
                              JDict td \<Rightarrow> has_key td ''window'' \<or> has_key td ''sort''
                            | _ \<Rightarrow> False) ts)
      | JStr _ \<Rightarrow> Inr False
      | JDict _ \<Rightarrow> Inr False
      | _ \<Rightarrow> Inl TypeError)"

definition drop_window_transform :: "'f dict \<Rightarrow> exn + 'f dict" where
  "drop_window_transform spec =
     (case map_of spec ''transform'' of
        None \<Rightarrow> Inr spec
      | Some transforms \<Rightarrow>
          (case has_window transforms of
             Inl e \<Rightarrow> Inl e
           | Inr found \<Rightarrow> Inr (if found then AList.delete ''transform'' spec else spec)))"

text \<open>One round of the loop over \<^verbatim>\<open>("x", "y", "color", "theta")\<close>.\<close>

definition clean_axis_sort :: "'f dict \<Rightarrow> string \<Rightarrow> 'f dict" where
  "clean_axis_sort encoding axis_key =
     (case get_or encoding axis_key (JDict []) of
        JDict axis \<Rightarrow>
          (case map_of axis ''sort'' of
             None \<Rightarrow> encoding
           | Some srt \<Rightarrow>
               if srt = JDict [] \<or> srt = JNull
               then AList.update axis_key (JDict (AList.delete ''sort'' axis)) encoding
               else encoding)
      | _ \<Rightarrow> encoding)"

definition clean_empty_sorts :: "'f dict \<Rightarrow> exn + 'f dict" where
  "clean_empty_sorts spec =
     (case map_of spec ''encoding'' of
        None \<Rightarrow> Inr spec
      | Some (JDict encoding) \<Rightarrow>
          Inr (AList.update ''encoding''
                 (JDict (foldl clean_axis_sort encoding [''x'', ''y'', ''color'', ''theta''])) spec)
      | Some _ \<Rightarrow> Inl AttributeError)"

section \<open>Temporal units: \<^verbatim>\<open>visualization._fix_temporal_data\<close>\<close>

text \<open>\<^verbatim>\<open>isinstance(v, (int, float))\<close>; a Python \<^verbatim>\<open>bool\<close> is an \<^verbatim>\<open>int\<close>.\<close>

definition is_number :: "'f json \<Rightarrow> bool" where
  "is_number v = (case v of JInt _ \<Rightarrow> True | JFloat _ \<Rightarrow> True | JBool _ \<Rightarrow> True | _ \<Rightarrow> False)"

text \<open>\<^verbatim>\<open>1e8 < v < 3e9\<close> on a number.\<close>

definition in_seconds_range :: "'f float_ops \<Rightarrow> 'f json \<Rightarrow> bool" where
  "in_seconds_range fl v =
     (case v of
        JInt n \<Rightarrow> 100000000 < n \<and> n < 3000000000
      | JFloat x \<Rightarrow> in_seconds fl x
      | _ \<Rightarrow> False)"

text \<open>\<^verbatim>\<open>v * 1000\<close> on a number.\<close>

definition times1000 :: "'f float_ops \<Rightarrow> 'f json \<Rightarrow> 'f json" where
  "times1000 fl v =
     (case v of
        JInt n \<Rightarrow> JInt (n * 1000)
      | JFloat x \<Rightarrow> JFloat (times_1000 fl x)
      | JBool b \<Rightarrow> JInt (if b then 1000 else 0)
      | _ \<Rightarrow> v)"

text \<open>The temporal field a channel contributes to \<^verbatim>\<open>temporal_fields\<close>, if any.\<close>

definition temporal_field :: "'f float_ops \<Rightarrow> 'f dict \<Rightarrow> string \<Rightarrow> 'f json list" where
  "temporal_field fl encoding axis_key =
     (case get_or encoding axis_key (JDict []) of
        JDict axis \<Rightarrow>
          if map_of axis ''type'' = Some (JStr ''temporal'') then
            (case map_of axis ''field'' of
               None \<Rightarrow> []
             | Some field \<Rightarrow> if truthy fl field then [field] else [])
          else []
      | _ \<Rightarrow> [])"

definition temporal_fields :: "'f float_ops \<Rightarrow> 'f dict \<Rightarrow> 'f json list" where
  "temporal_fields fl encoding = concat (map (temporal_field fl encoding) [''x'', ''y'', ''color''])"

text \<open>
  The rows \<^verbatim>\<open>values[:5]\<close> iterates over: a slice of a list, the characters of a slice of a
  string; slicing anything else raises (a number, a boolean and \<^verbatim>\<open>None\<close> are not
  subscriptable, a dictionary has no slice for a key).
\<close>

definition first_rows :: "'f json \<Rightarrow> exn + 'f json list" where
  "first_rows vals =
     (case vals of
        JList rs \<Rightarrow> Inr (take 5 rs)
      | JStr s \<Rightarrow> Inr (map (\<lambda>c. JStr [c]) (take 5 s))
      | _ \<Rightarrow> Inl TypeError)"

text \<open>
  \<^verbatim>\<open>[row.get(field) for row in ... if isinstance(row, dict) and
  isinstance(row.get(field), (int, float))]\<close>.
\<close>

fun sample_vals :: "'f json \<Rightarrow> 'f json list \<Rightarrow> exn + 'f json list" where
  "sample_vals field [] = Inr []"
| "sample_vals field (row # rest) =
     (case row of
        JDict r \<Rightarrow>
          (case py_get r field of
             Inl e \<Rightarrow> Inl e
           | Inr found \<Rightarrow>
               (case sample_vals field rest of
                  Inl e \<Rightarrow> Inl e
                | Inr vs \<Rightarrow>
                    (case found of
                       None \<Rightarrow> Inr vs
                     | Some v \<Rightarrow> if is_number v then Inr (v # vs) else Inr vs)))
      | _ \<Rightarrow> sample_vals field rest)"

text \<open>
  The body of the conversion loop for one row.  It is only reached with a non-empty
  sample, so the field is a string there.
\<close>

definition convert_row :: "'f float_ops \<Rightarrow> string \<Rightarrow> 'f json \<Rightarrow> 'f json" where
  "convert_row fl k row =
     (case row of
        JDict r \<Rightarrow>
          (case map_of r k of
             None \<Rightarrow> row
           | Some v \<Rightarrow> if is_number v then JDict (AList.update k (times1000 fl v) r) else row)
      | _ \<Rightarrow> row)"

text \<open>One round of \<^verbatim>\<open>for field in temporal_fields\<close>, returning the new \<^verbatim>\<open>values\<close>.\<close>

definition fix_field :: "'f float_ops \<Rightarrow> 'f json \<Rightarrow> 'f json \<Rightarrow> exn + 'f json" where
  "fix_field fl vals field =
     (case first_rows vals of
        Inl e \<Rightarrow> Inl e
      | Inr head \<Rightarrow>
          (case sample_vals field head of
             Inl e \<Rightarrow> Inl e
           | Inr sample \<Rightarrow>
               if sample \<noteq> [] \<and> list_all (in_seconds_range fl) sample then
                 (case (vals, field) of
                    (JList rs, JStr k) \<Rightarrow> Inr (JList (map (convert_row fl k) rs))
                  | _ \<Rightarrow> Inr vals)
               else Inr vals))"

fun fix_fields :: "'f float_ops \<Rightarrow> 'f json \<Rightarrow> 'f json list \<Rightarrow> exn + 'f json" where
  "fix_fields fl vals [] = Inr vals"
| "fix_fields fl vals (field # others) =
     (case fix_field fl vals field of
        Inl e \<Rightarrow> Inl e
      | Inr vals1 \<Rightarrow> fix_fields fl vals1 others)"

definition fix_temporal_data :: "'f float_ops \<Rightarrow> 'f dict \<Rightarrow> exn + 'f dict" where
  "fix_temporal_data fl spec =
     (case get_or spec ''data'' (JDict []) of
        JDict data_dict \<Rightarrow>
          (let vals = get_or data_dict ''values'' (JList []) in
           if \<not> truthy fl vals then Inr spec
           else case get_or spec ''encoding'' (JDict []) of
             JDict encoding \<Rightarrow>
               (let found = temporal_fields fl encoding in
                if found = [] then Inr spec
                else case fix_fields fl vals found of
                  Inl e \<Rightarrow> Inl e
                | Inr vals1 \<Rightarrow>
                    Inr (AList.update ''data''
                           (JDict (AList.update ''values'' vals1 data_dict)) spec))
           | _ \<Rightarrow> Inl AttributeError)
      | _ \<Rightarrow> Inl AttributeError)"

text \<open>\<^verbatim>\<open>if "$schema" in spec: spec["$schema"] = ...\<close>.\<close>

definition force_schema :: "'f dict \<Rightarrow> 'f dict" where
  "force_schema spec =
     (if has_key spec ''$schema'' then AList.update ''$schema'' (JStr vega_lite_v5) spec
      else spec)"

definition clean_vega_spec :: "'f float_ops \<Rightarrow> 'f dict \<Rightarrow> exn + 'f dict" where
  "clean_vega_spec fl spec =
     (case drop_window_transform spec of
        Inl e \<Rightarrow> Inl e
      | Inr spec1 \<Rightarrow>
          (case clean_empty_sorts spec1 of
             Inl e \<Rightarrow> Inl e
           | Inr spec2 \<Rightarrow>
               (case fix_temporal_data fl spec2 of
                  Inl e \<Rightarrow> Inl e
                | Inr spec3 \<Rightarrow> Inr (force_schema spec3))))"

section \<open>Notions used in the statements and proofs\<close>

text \<open>The cell of column \<open>k\<close> in a data row (\<^verbatim>\<open>row.get(k)\<close> on a dictionary row).\<close>

abbreviation cell :: "string \<Rightarrow> 'f json \<Rightarrow> 'f json option" where
  "cell k row \<equiv> (case row of JDict r \<Rightarrow> map_of r k | _ \<Rightarrow> None)"

text \<open>What the conversion loop makes of a cell: a number is multiplied by 1000.\<close>

abbreviation scale :: "'f float_ops \<Rightarrow> 'f json \<Rightarrow> 'f json" where
  "scale fl v \<equiv> (if is_number v then times1000 fl v else v)"

text \<open>The assumption on float arithmetic: a float strictly between \<^verbatim>\<open>1e8\<close> and \<^verbatim>\<open>3e9\<close> leaves that range
  when it is multiplied by 1000.\<close>

abbreviation float_ok :: "'f float_ops \<Rightarrow> bool" where
  "float_ok fl \<equiv> (\<forall>x. in_seconds fl x \<longrightarrow> \<not> in_seconds fl (times_1000 fl x))"

text \<open>\<^verbatim>\<open>isinstance(v, dict)\<close>.\<close>

definition is_dict :: "'f json \<Rightarrow> bool" where
  "is_dict v = (case v of JDict _ \<Rightarrow> True | _ \<Rightarrow> False)"

text \<open>The numeric cells of column \<open>k\<close>: the sample taken for a string field.\<close>

fun numeric_cells :: "string \<Rightarrow> 'f json list \<Rightarrow> 'f json list" where
  "numeric_cells k [] = []"
| "numeric_cells k (row # rest) =
     (case cell k row of
        Some v \<Rightarrow> if is_number v then v # numeric_cells k rest else numeric_cells k rest
      | None \<Rightarrow> numeric_cells k rest)"

text \<open>The condition under which the conversion loop runs for the string field \<open>k\<close>.\<close>

definition triggers :: "'f float_ops \<Rightarrow> string \<Rightarrow> 'f json list \<Rightarrow> bool" where
  "triggers fl k rs =
     (numeric_cells k (take 5 rs) \<noteq> [] \<and>
      list_all (in_seconds_range fl) (numeric_cells k (take 5 rs)))"

text \<open>A field for which \<open>fix_field\<close> neither raises nor converts.\<close>

definition quiet :: "'f float_ops \<Rightarrow> 'f json \<Rightarrow> 'f json list \<Rightarrow> bool" where
  "quiet fl f rs =
     (case f of
        JStr k \<Rightarrow> \<not> triggers fl k rs
      | JList _ \<Rightarrow> \<not> list_ex is_dict (take 5 rs)
      | JDict _ \<Rightarrow> \<not> list_ex is_dict (take 5 rs)
      | _ \<Rightarrow> True)"

text \<open>A channel whose \<^verbatim>\<open>sort\<close> the normalizer deletes.\<close>

definition dirty :: "'f dict \<Rightarrow> string \<Rightarrow> bool" where
  "dirty enc a =
     (case get_or enc a (JDict []) of
        JDict axis \<Rightarrow>
          (case map_of axis ''sort'' of
             None \<Rightarrow> False
           | Some srt \<Rightarrow> srt = JDict [] \<or> srt = JNull)
      | _ \<Rightarrow> False)"

section \<open>Fixtures for evaluation\<close>

text \<open>
  A stand-in for the float operations where a float is integer valued; it is used to
  evaluate the definitions at concrete inputs.
\<close>

abbreviation int_floats :: "int float_ops" where
  "int_floats \<equiv> \<lparr>is_zero = (\<lambda>x. x = 0),
                  in_seconds = (\<lambda>x. 100000000 < x \<and> x < 3000000000),
                  times_1000 = (\<lambda>x. x * 1000)\<rparr>"

text \<open>
  A library in which no text parses as JSON and no fenced block is found, and one in which
  exactly the text \<^verbatim>\<open>{"mark": 1}\<close> parses, and one in which exactly \<^verbatim>\<open>{"status": "mark"}\<close>
  parses.  \<^verbatim>\<open>MessageToDict\<close> is the identity on raw messages
  that are already dictionaries.
\<close>

abbreviation plain_library :: "(int, int dict) library" where
  "plain_library \<equiv> \<lparr>json_loads = (\<lambda>s. None), findall_fenced = (\<lambda>s. []),
                     sub_fenced = (\<lambda>m s. s), MessageToDict = Inr\<rparr>"

abbreviation chart_library :: "(int, int dict) library" where
  "chart_library \<equiv> \<lparr>json_loads = (\<lambda>s. if s = ''{\"mark\": 1}''
                                        then Some (JDict [(''mark'', JInt 1)]) else None),
                     findall_fenced = (\<lambda>s. []), sub_fenced = (\<lambda>m s. s), MessageToDict = Inr\<rparr>"

abbreviation status_library :: "(int, int dict) library" where
  "status_library \<equiv> \<lparr>json_loads = (\<lambda>s. if s = ''{\"status\": \"mark\"}''
                                         then Some (JDict [(''status'', JStr ''mark'')]) else None),
                      findall_fenced = (\<lambda>s. []), sub_fenced = (\<lambda>m s. s), MessageToDict = Inr\<rparr>"

text \<open>One optional message as a list of zero or one messages.\<close>

abbreviation slot :: "'a option \<Rightarrow> 'a list" where
  "slot x \<equiv> (case x of None \<Rightarrow> [] | Some m \<Rightarrow> [m])"

text \<open>A system message with every part set, and one with a text, a query and an error.\<close>

abbreviation full_system_message :: "(int, int dict) system_message" where
  "full_system_message \<equiv>
   \<lparr>sys_text = Some \<lparr>parts = [''Sales'', ''{\"mark\": 1}'']\<rparr>,
    sys_data = Some \<lparr>generated_sql = ''SELECT 1'',
                     result = Some [(''data'', JList [JList [JInt 1]])]\<rparr>,
    sys_chart = Some \<lparr>chart_result = Some
        \<lparr>pb = [(''vegaConfig'', JDict [(''mark'', JStr ''bar'')])],
         vega_config = [(''mark'', JStr ''bar'')],
         image = Some \<lparr>blob_data = [137, 80]\<rparr>\<rparr>\<rparr>,
    sys_analysis = Some \<lparr>progress_event = Some ''planning''\<rparr>,
    sys_error = Some \<lparr>error_text = ''quota''\<rparr>\<rparr>"

abbreviation short_message :: "(int, int dict) message" where
  "short_message \<equiv> \<lparr>user_message = None, system_message = Some
   \<lparr>sys_text = Some \<lparr>parts = [''Total'', ''sales'']\<rparr>,
    sys_data = Some \<lparr>generated_sql = ''SELECT 1'', result = None\<rparr>,
    sys_chart = None, sys_analysis = None,
    sys_error = Some \<lparr>error_text = ''quota''\<rparr>\<rparr>\<rparr>"

text \<open>
  Three specs with the temporal field \<^verbatim>\<open>d\<close> on the x channel: epoch seconds, the same in
  milliseconds, and the lower end \<^verbatim>\<open>1e8\<close> of the range.
\<close>

abbreviation seconds_spec :: "int dict" where
  "seconds_spec \<equiv>
     [(''$schema'', JStr ''https://vega.github.io/schema/vega-lite/v4.json''),
      (''encoding'', JDict [(''x'', JDict [(''field'', JStr ''d''), (''type'', JStr ''temporal'')])]),
      (''data'', JDict [(''values'', JList
         [JDict [(''d'', JInt 1561939200)], JDict [(''d'', JInt 1561939300)],
          JDict [(''d'', JStr ''n/a'')]])])]"

abbreviation milliseconds_spec :: "int dict" where
  "milliseconds_spec \<equiv>
     [(''$schema'', JStr ''https://vega.github.io/schema/vega-lite/v5.json''),
      (''encoding'', JDict [(''x'', JDict [(''field'', JStr ''d''), (''type'', JStr ''temporal'')])]),
      (''data'', JDict [(''values'', JList
         [JDict [(''d'', JInt 1561939200000)], JDict [(''d'', JInt 1561939300000)],
          JDict [(''d'', JStr ''n/a'')]])])]"

abbreviation boundary_spec :: "int dict" where
  "boundary_spec \<equiv>
     [(''encoding'', JDict [(''x'', JDict [(''field'', JStr ''d''), (''type'', JStr ''temporal'')])]),
      (''data'', JDict [(''values'', JList [JDict [(''d'', JInt 100000000)]])])]"

section \<open>Properties of the variant unwrap\<close>

lemma has_key_iff: "has_key d k = (k \<in> fst ` set d)"
  by (simp add: has_key_def map_of_eq_None_iff)

lemma first_tag_value_tags:
  "first_tag value_tags d =
     (case map_of d ''stringValue'' of Some v \<Rightarrow> Some v | None \<Rightarrow>
      (case map_of d ''numberValue'' of Some v \<Rightarrow> Some v | None \<Rightarrow>
      (case map_of d ''boolValue'' of Some v \<Rightarrow> Some v | None \<Rightarrow>
      map_of d ''integerValue'')))"
  by (simp add: value_tags_def split: option.splits)

text \<open>
  C2.  On a cell wrapper that is a mapping, the unwrap never raises and returns the value
  under the first tag present in the order stringValue, numberValue, boolValue,
  integerValue; with none of them, null when nullValue is present or the wrapper is
  empty, and otherwise the value of the wrapper's first entry.  On
  \<^verbatim>\<open>{"stringValue": "9", "numberValue": 9}\<close> it returns the string \<^verbatim>\<open>"9"\<close>.
\<close>

theorem extract_proto_value_precedence:
  "extract_proto_value fl (JDict d) = Inr
     (case map_of d ''stringValue'' of Some v \<Rightarrow> v | None \<Rightarrow>
      (case map_of d ''numberValue'' of Some v \<Rightarrow> v | None \<Rightarrow>
      (case map_of d ''boolValue'' of Some v \<Rightarrow> v | None \<Rightarrow>
      (case map_of d ''integerValue'' of Some v \<Rightarrow> v | None \<Rightarrow>
        if ''nullValue'' \<in> fst ` set d \<or> d = [] then JNull else snd (hd d)))))
   \<and> extract_proto_value fl
         (JDict [(''stringValue'', JStr ''9''), (''numberValue'', JInt 9)]) = Inr (JStr ''9'')"
proof -
  have general: "extract_proto_value fl (JDict d) = Inr
     (case map_of d ''stringValue'' of Some v \<Rightarrow> v | None \<Rightarrow>
      (case map_of d ''numberValue'' of Some v \<Rightarrow> v | None \<Rightarrow>
      (case map_of d ''boolValue'' of Some v \<Rightarrow> v | None \<Rightarrow>
      (case map_of d ''integerValue'' of Some v \<Rightarrow> v | None \<Rightarrow>
        if ''nullValue'' \<in> fst ` set d \<or> d = [] then JNull else snd (hd d)))))"
  proof (cases d)
    case Nil
    then show ?thesis by (simp add: extract_proto_value_def)
  next
    case (Cons e es)
    then show ?thesis
      by (cases e)
         (simp add: extract_proto_value_def first_tag_value_tags has_key_iff
               split: option.splits)
  qed
  have example: "extract_proto_value fl
         (JDict [(''stringValue'', JStr ''9''), (''numberValue'', JInt 9)]) = Inr (JStr ''9'')"
    by (simp add: extract_proto_value_def value_tags_def)
  from general example show ?thesis by (rule conjI)
qed

theorem extract_proto_value_precedence_witness:
  "extract_proto_value int_floats
     (JDict [(''integerValue'', JStr ''7''), (''boolValue'', JBool True)]) = Inr (JBool True)
   \<and> extract_proto_value int_floats
     (JDict [(''listValue'', JList []), (''nullValue'', JInt 0)]) = Inr JNull
   \<and> extract_proto_value int_floats
     (JDict [(''listValue'', JList [JInt 1]), (''structValue'', JInt 0)]) = Inr (JList [JInt 1])"
  using extract_proto_value_precedence
          [of int_floats "[(''integerValue'', JStr ''7''), (''boolValue'', JBool True)]"]
        extract_proto_value_precedence
          [of int_floats "[(''listValue'', JList []), (''nullValue'', JInt 0)]"]
        extract_proto_value_precedence
          [of int_floats "[(''listValue'', JList [JInt 1]), (''structValue'', JInt 0)]"]
  by simp

lemmas table_ev = primary_rows_def schema_columns_def get_or_def dict_row_def
  extract_proto_value_def value_tags_def has_key_def

lemmas msg_ev = parse_message_def text_part_def data_part_def chart_part_def analysis_part_def
  error_part_def extract_chart_from_text_def brace_positions_def strip_def lstrip_def rstrip_def
  is_space_def leadin_match_def lower_def new_ChatMessage_def chart_like_def has_key_def
  parse_data_result_def decode_dict_def fallback_rows_def primary_rows_def schema_columns_def
  get_or_def vega_spec_def ensure_schema_def stream_error_def

section \<open>Order of the display messages of one inbound message\<close>

lemma text_part_slots:
  "\<exists>c t. text_part lib sm = slot c @ slot t
     \<and> (\<forall>m. c = Some m \<longrightarrow> message_type m = ''chart'' \<and>
           (\<exists>tm spec. sys_text sm = Some tm
              \<and> snd (extract_chart_from_text lib (join '' '' (parts tm))) = Some spec
              \<and> chart_spec m = Some (JDict (ensure_schema spec))))
     \<and> (\<forall>m. t = Some m \<longrightarrow> message_type m = ''text'' \<and>
           (\<exists>tm. sys_text sm = Some tm
              \<and> content m = fst (extract_chart_from_text lib (join '' '' (parts tm)))))"
proof (cases "sys_text sm")
  case None
  then show ?thesis
    by (intro exI[of _ None]) (simp add: text_part_def)
next
  case (Some tm)
  obtain clean spec where e: "extract_chart_from_text lib (join '' '' (parts tm)) = (clean, spec)"
    by (cases "extract_chart_from_text lib (join '' '' (parts tm))")
  let ?go = "parts tm \<noteq> [] \<and> strip (join '' '' (parts tm)) \<noteq> []"
  let ?c = "case spec of None \<Rightarrow> None
            | Some d \<Rightarrow> if ?go \<and> d \<noteq> []
                then Some ((new_ChatMessage ''assistant'' [] ''chart'')
                             \<lparr>chart_spec := Some (JDict (ensure_schema d))\<rparr>)
                else None"
  let ?t = "if ?go \<and> strip clean \<noteq> []
            then Some (new_ChatMessage ''assistant'' clean ''text'') else None"
  from Some e show ?thesis
    by (intro exI[of _ ?c] exI[of _ ?t])
       (auto simp: text_part_def new_ChatMessage_def Let_def split: option.splits)
qed

lemma data_part_slots:
  "\<exists>s d. data_part fl lib sm = slot s @ slot d
     \<and> (\<forall>m. s = Some m \<longrightarrow> message_type m = ''sql'' \<and>
           (\<exists>dm. sys_data sm = Some dm \<and> content m = generated_sql dm))
     \<and> (\<forall>m. d = Some m \<longrightarrow> message_type m = ''data'' \<and>
           (\<exists>dm r. sys_data sm = Some dm \<and> result dm = Some r
              \<and> data m = parse_data_result fl lib r \<and> data m \<noteq> None))"
proof (cases "sys_data sm")
  case None
  then show ?thesis
    by (intro exI[of _ None]) (simp add: data_part_def)
next
  case (Some dm)
  let ?sql = "if generated_sql dm \<noteq> [] then Some (generated_sql dm) else None"
  let ?s = "if generated_sql dm \<noteq> []
            then Some ((new_ChatMessage ''assistant'' (generated_sql dm) ''sql'')
                         \<lparr>sql_query := Some (generated_sql dm)\<rparr>)
            else None"
  let ?d = "case result dm of None \<Rightarrow> None
            | Some r \<Rightarrow> (case parse_data_result fl lib r of None \<Rightarrow> None
                | Some t \<Rightarrow> Some ((new_ChatMessage ''assistant'' [] ''data'')
                                    \<lparr>data := Some t, sql_query := ?sql\<rparr>))"
  from Some show ?thesis
    by (intro exI[of _ ?s] exI[of _ ?d])
       (auto simp: data_part_def new_ChatMessage_def Let_def split: option.splits)
qed

lemma chart_part_slots:
  "\<exists>v i. chart_part fl lib sm = slot v @ slot i
     \<and> (\<forall>m. v = Some m \<longrightarrow> message_type m = ''chart'' \<and> chart_spec m \<noteq> None
           \<and> chart_image m = None \<and> sys_chart sm \<noteq> None)
     \<and> (\<forall>m. i = Some m \<longrightarrow> message_type m = ''chart'' \<and> chart_image m \<noteq> None
           \<and> chart_spec m = None \<and> sys_chart sm \<noteq> None)"
proof (cases "sys_chart sm")
  case None
  then show ?thesis
    by (intro exI[of _ None]) (simp add: chart_part_def)
next
  case c: (Some chart)
  show ?thesis
  proof (cases "chart_result chart")
    case None
    with c show ?thesis
      by (intro exI[of _ None]) (simp add: chart_part_def)
  next
    case (Some cr)
    let ?v = "if vega_config cr \<noteq> [] then
                (case MessageToDict lib (pb cr) of Inl e \<Rightarrow> None
                 | Inr cr_dict \<Rightarrow> (case vega_spec fl cr_dict of None \<Rightarrow> None
                     | Some spec \<Rightarrow> Some ((new_ChatMessage ''assistant'' [] ''chart'')
                                           \<lparr>chart_spec := Some spec\<rparr>)))
              else None"
    let ?i = "case image cr of None \<Rightarrow> None
              | Some img \<Rightarrow> if blob_data img \<noteq> []
                  then Some ((new_ChatMessage ''assistant'' [] ''chart'')
                               \<lparr>chart_image := Some (blob_data img)\<rparr>)
                  else None"
    from c Some show ?thesis
      by (intro exI[of _ ?v] exI[of _ ?i])
         (auto simp: chart_part_def new_ChatMessage_def split: option.splits sum.splits)
  qed
qed

lemma analysis_part_slot:
  "\<exists>r. analysis_part sm = slot r
     \<and> (\<forall>m. r = Some m \<longrightarrow> message_type m = ''reasoning'' \<and>
           (\<exists>am. sys_analysis sm = Some am \<and> progress_event am = Some (content m)))"
  by (intro exI[of _ "case sys_analysis sm of None \<Rightarrow> None
        | Some am \<Rightarrow> (case progress_event am of None \<Rightarrow> None
            | Some ev \<Rightarrow> Some (new_ChatMessage ''assistant'' ev ''reasoning''))"])
     (auto simp: analysis_part_def new_ChatMessage_def split: option.splits)

lemma error_part_slot:
  "\<exists>e. error_part sm = slot e
     \<and> (\<forall>m. e = Some m \<longrightarrow> message_type m = ''error'' \<and>
           (\<exists>em. sys_error sm = Some em \<and> content m = error_text em))"
  by (intro exI[of _ "case sys_error sm of None \<Rightarrow> None
        | Some em \<Rightarrow> if error_text em \<noteq> []
            then Some (new_ChatMessage ''assistant'' (error_text em) ''error'') else None"])
     (auto simp: error_part_def new_ChatMessage_def split: option.splits)



section \<open>The fallback to the formatted rows\<close>

lemma primary_rows_cong:
  "map_of d' ''schema'' = map_of d ''schema'' \<Longrightarrow> map_of d' ''data'' = map_of d ''data''
   \<Longrightarrow> primary_rows fl d' = primary_rows fl d"
proof -
  assume s: "map_of d' ''schema'' = map_of d ''schema''"
    and r: "map_of d' ''data'' = map_of d ''data''"
  have 1: "get_or d' ''schema'' x = get_or d ''schema'' x" for x
    using s by (simp add: get_or_def)
  have 2: "get_or d' ''data'' x = get_or d ''data'' x" for x
    using r by (simp add: get_or_def)
  show ?thesis
    unfolding primary_rows_def schema_columns_def 1 2 ..
qed

lemma fallback_rows_skip: "rows t \<noteq> [] \<Longrightarrow> fallback_rows fl d t = Inr t"
  by (simp add: fallback_rows_def)

lemma fallback_rows_formatted:
  "rows t = [] \<Longrightarrow> get_or d ''formattedData'' (JList []) = JList rs
   \<Longrightarrow> fallback_rows fl d t = formatted_loop fl t rs"
  by (simp add: fallback_rows_def)

lemma primary_rows_win:
  assumes "primary_rows fl d = Inr t" and "rows t \<noteq> []"
    and "MessageToDict lib' raw' = Inr d'"
    and "map_of d' ''schema'' = map_of d ''schema''"
    and "map_of d' ''data'' = map_of d ''data''"
  shows "parse_data_result fl lib' raw' = Some t"
proof -
  from assms(4,5) have "primary_rows fl d' = primary_rows fl d"
    by (rule primary_rows_cong)
  with assms(1) have "primary_rows fl d' = Inr t"
    by simp
  with assms(2,3) show ?thesis
    by (simp add: parse_data_result_def decode_dict_def fallback_rows_skip)
qed

lemma no_primary_rows_fallback:
  assumes "MessageToDict lib raw = Inr d" and "primary_rows fl d = Inr t" and "rows t = []"
    and "get_or d ''formattedData'' (JList []) = JList rs"
  shows "parse_data_result fl lib raw =
           (case formatted_loop fl t rs of
              Inl e \<Rightarrow> None
            | Inr r \<Rightarrow> if columns r \<noteq> [] \<or> rows r \<noteq> [] then Some r else None)"
proof -
  from assms(3,4) have "fallback_rows fl d t = formatted_loop fl t rs"
    by (rule fallback_rows_formatted)
  with assms(1,2) show ?thesis
    by (simp add: parse_data_result_def decode_dict_def split: sum.splits)
qed

text \<open>
  C3.  Let the payload convert to the dictionary \<open>d\<close> and let the schema and the primary
  \<^verbatim>\<open>data\<close> field decode to the table \<open>t\<close>.  If \<open>t\<close> has one or more rows, the decoder returns
  \<open>t\<close> for every payload with the same \<^verbatim>\<open>schema\<close> and \<^verbatim>\<open>data\<close> entries, whatever its
  \<^verbatim>\<open>formattedData\<close> entry is: the fallback field is not consulted.  If \<open>t\<close> has no row, the
  result is the one of the loop over the \<^verbatim>\<open>formattedData\<close> rows.
\<close>

theorem fallback_iff_no_primary_rows:
  assumes "MessageToDict lib raw = Inr d" and "primary_rows fl d = Inr t"
  shows "(rows t \<noteq> [] \<longrightarrow>
            MessageToDict lib' raw' = Inr d'
              \<and> map_of d' ''schema'' = map_of d ''schema''
              \<and> map_of d' ''data'' = map_of d ''data''
            \<longrightarrow> parse_data_result fl lib' raw' = Some t)
       \<and> (rows t = [] \<longrightarrow>
            get_or d ''formattedData'' (JList []) = JList rs \<longrightarrow>
            parse_data_result fl lib raw =
              (case formatted_loop fl t rs of
                 Inl e \<Rightarrow> None
               | Inr r \<Rightarrow> if columns r \<noteq> [] \<or> rows r \<noteq> [] then Some r else None))"
proof (intro conjI impI)
  assume nonempty: "rows t \<noteq> []"
    and other: "MessageToDict lib' raw' = Inr d'
              \<and> map_of d' ''schema'' = map_of d ''schema''
              \<and> map_of d' ''data'' = map_of d ''data''"
  from other have a: "MessageToDict lib' raw' = Inr d'"
    and b: "map_of d' ''schema'' = map_of d ''schema''"
    and c: "map_of d' ''data'' = map_of d ''data''"
    by simp_all
  show "parse_data_result fl lib' raw' = Some t"
    by (rule primary_rows_win[OF assms(2) nonempty a b c])
next
  assume "rows t = []" and "get_or d ''formattedData'' (JList []) = JList rs"
  with assms show "parse_data_result fl lib raw =
              (case formatted_loop fl t rs of
                 Inl e \<Rightarrow> None
               | Inr r \<Rightarrow> if columns r \<noteq> [] \<or> rows r \<noteq> [] then Some r else None)"
    by (rule no_primary_rows_fallback)
qed

theorem fallback_iff_no_primary_rows_witness:
  "parse_data_result int_floats plain_library
      [(''schema'', JDict [(''fields'', JList [JDict [(''name'', JStr ''a'')]])]),
       (''formattedData'', JList [JDict [(''fields'',
            JDict [(''a'', JDict [(''stringValue'', JStr ''7'')])])]]),
       (''data'', JList [JDict [(''fields'', JDict [(''a'', JDict [(''nullValue'', JNull)])])]])]
     = Some \<lparr>columns = [JStr ''a''], rows = [[JNull]]\<rparr>
   \<and> parse_data_result int_floats plain_library
      [(''schema'', JDict [(''fields'', JList [JDict [(''name'', JStr ''a'')]])]),
       (''data'', JList []),
       (''formattedData'', JList [JDict [(''fields'',
            JDict [(''a'', JDict [(''stringValue'', JStr ''7'')])])]])]
     = Some \<lparr>columns = [JStr ''a''], rows = [[JStr ''7'']]\<rparr>"
proof -
  let ?schema = "(''schema'', JDict [(''fields'', JList [JDict [(''name'', JStr ''a'')]])])"
  let ?fmt = "[JDict [(''fields'', JDict [(''a'', JDict [(''stringValue'', JStr ''7'')])])]]
                :: int json list"
  let ?d1 = "[?schema,
       (''data'', JList [JDict [(''fields'', JDict [(''a'', JDict [(''nullValue'', JNull)])])]])]"
  let ?d1' = "[?schema, (''formattedData'', JList ?fmt),
       (''data'', JList [JDict [(''fields'', JDict [(''a'', JDict [(''nullValue'', JNull)])])]])]"
  let ?t1 = "\<lparr>columns = [JStr ''a''], rows = [[JNull]]\<rparr> :: int table"
  let ?d2 = "[?schema, (''data'', JList []), (''formattedData'', JList ?fmt)]"
  let ?t2 = "\<lparr>columns = [JStr ''a''], rows = []\<rparr> :: int table"
  have p1: "MessageToDict plain_library ?d1 = Inr ?d1 \<and> primary_rows int_floats ?d1 = Inr ?t1"
    by (simp add: table_ev)
  have p2: "MessageToDict plain_library ?d2 = Inr ?d2 \<and> primary_rows int_floats ?d2 = Inr ?t2"
    by (simp add: table_ev)
  have same: "MessageToDict plain_library ?d1' = Inr ?d1'
      \<and> map_of ?d1' ''schema'' = map_of ?d1 ''schema''
      \<and> map_of ?d1' ''data'' = map_of ?d1 ''data''"
    by simp
  have one: "parse_data_result int_floats plain_library ?d1' = Some ?t1"
    using fallback_iff_no_primary_rows[where lib=plain_library and raw="?d1" and d="?d1"
         and fl=int_floats and t="?t1" and lib'=plain_library and raw'="?d1'" and d'="?d1'"]
      p1 same
    by (simp del: map_of.simps)
  have fmt: "get_or ?d2 ''formattedData'' (JList []) = JList ?fmt"
    by (simp add: get_or_def)
  have "parse_data_result int_floats plain_library ?d2 =
             (case formatted_loop int_floats ?t2 ?fmt of
                Inl e \<Rightarrow> None
              | Inr r \<Rightarrow> if columns r \<noteq> [] \<or> rows r \<noteq> [] then Some r else None)"
    using fallback_iff_no_primary_rows[where lib=plain_library and raw="?d2" and d="?d2"
         and fl=int_floats and t="?t2" and rs="?fmt"] p2 fmt
    by simp
  then have two: "parse_data_result int_floats plain_library ?d2
       = Some \<lparr>columns = [JStr ''a''], rows = [[JStr ''7'']]\<rparr>"
    by (simp add: table_ev)
  from one two show ?thesis by simp
qed

section \<open>The extractor when no spec is accepted\<close>

lemma fenced_loop_none: "snd (fenced_loop lib txt ms) = None \<Longrightarrow> fst (fenced_loop lib txt ms) = txt"
  by (induction ms) (auto split: option.splits)

lemma brace_loop_none: "snd (brace_loop lib txt ps) = None \<Longrightarrow> fst (brace_loop lib txt ps) = txt"
  by (induction ps) (auto simp: Let_def split: option.splits if_splits)

lemma fenced_loop_reject:
  "\<forall>s p. json_loads lib s = Some p \<longrightarrow> chart_like p = None \<Longrightarrow> fenced_loop lib txt ms = (txt, None)"
  by (induction ms) (auto split: option.splits)

lemma brace_loop_reject:
  "\<forall>s p. json_loads lib s = Some p \<longrightarrow> chart_like p = None \<Longrightarrow> brace_loop lib txt ps = (txt, None)"
  by (induction ps) (auto simp: Let_def split: option.splits)




section \<open>Failure of the response stream\<close>

lemma consume_yields:
  "consume fl lib acc (map Yield ms @ stream)
     = consume fl lib (acc @ concat (map (parse_message fl lib) ms)) stream"
  by (induction ms arbitrary: acc) simp_all



section \<open>Roles of the display messages\<close>

lemma text_part_role: "list_all (\<lambda>m. role m = ''assistant'') (text_part lib sm)"
  by (simp add: text_part_def new_ChatMessage_def Let_def split: option.splits prod.splits)

lemma data_part_role: "list_all (\<lambda>m. role m = ''assistant'') (data_part fl lib sm)"
  by (simp add: data_part_def new_ChatMessage_def Let_def split: option.splits)

lemma chart_part_role: "list_all (\<lambda>m. role m = ''assistant'') (chart_part fl lib sm)"
  by (simp add: chart_part_def new_ChatMessage_def split: option.splits sum.splits)

lemma analysis_part_role: "list_all (\<lambda>m. role m = ''assistant'') (analysis_part sm)"
  by (simp add: analysis_part_def new_ChatMessage_def split: option.splits)

lemma error_part_role: "list_all (\<lambda>m. role m = ''assistant'') (error_part sm)"
  by (simp add: error_part_def new_ChatMessage_def split: option.splits)

lemma parse_message_roles: "list_all (\<lambda>m. role m = ''assistant'') (parse_message fl lib msg)"
  by (simp add: parse_message_def text_part_role data_part_role chart_part_role
        analysis_part_role error_part_role split: option.splits)

lemma parse_message_role: "m \<in> set (parse_message fl lib msg) \<Longrightarrow> role m = ''assistant''"
  using parse_message_roles[of fl lib msg] by (simp add: list_all_iff)

lemma consume_role:
  "\<forall>m \<in> set acc. role m = ''assistant'' \<Longrightarrow>
   \<forall>m \<in> set (consume fl lib acc stream). role m = ''assistant''"
proof (induction stream arbitrary: acc)
  case Nil
  then show ?case by simp
next
  case (Cons item stream)
  show ?case
  proof (cases item)
    case (Yield msg)
    have "\<forall>m \<in> set (acc @ parse_message fl lib msg). role m = ''assistant''"
      using Cons.prems by (auto dest: parse_message_role)
    from Cons.IH[OF this] Yield show ?thesis by simp
  next
    case (Raise e)
    with Cons.prems show ?thesis
      by (auto simp: stream_error_def new_ChatMessage_def)
  qed
qed

lemma consume_no_raise:
  "consume fl lib acc (map Yield ms) = acc @ concat (map (parse_message fl lib) ms)"
  using consume_yields[of fl lib acc ms "[]"] by simp



section \<open>The passes of the normalizer\<close>

lemma drop_window_other:
  "drop_window_transform spec = Inr s1 \<Longrightarrow> k \<noteq> ''transform'' \<Longrightarrow> map_of s1 k = map_of spec k"
  by (auto simp: drop_window_transform_def map_of_delete split: option.splits sum.splits if_splits)

lemma clean_empty_sorts_other:
  "clean_empty_sorts s1 = Inr s2 \<Longrightarrow> k \<noteq> ''encoding'' \<Longrightarrow> map_of s2 k = map_of s1 k"
  by (auto simp: clean_empty_sorts_def update_conv' split: option.splits json.splits)

lemma fix_temporal_other:
  "fix_temporal_data fl s2 = Inr s3 \<Longrightarrow> k \<noteq> ''data'' \<Longrightarrow> map_of s3 k = map_of s2 k"
  by (auto simp: fix_temporal_data_def Let_def update_conv'
           split: json.splits sum.splits if_splits)

lemma force_schema_lookup:
  "map_of (force_schema s) k =
     (if k = ''$schema'' \<and> has_key s ''$schema'' then Some (JStr vega_lite_v5) else map_of s k)"
  by (simp add: force_schema_def update_conv')

lemma clean_vega_spec_steps:
  assumes "clean_vega_spec fl spec = Inr out"
  obtains s1 s2 s3 where "drop_window_transform spec = Inr s1"
    and "clean_empty_sorts s1 = Inr s2" and "fix_temporal_data fl s2 = Inr s3"
    and "out = force_schema s3"
  using assms by (auto simp: clean_vega_spec_def split: sum.splits)

lemmas viz_ev = clean_vega_spec_def drop_window_transform_def has_window_def clean_empty_sorts_def
  clean_axis_sort_def fix_temporal_data_def temporal_fields_def temporal_field_def fix_field_def
  first_rows_def convert_row_def is_number_def in_seconds_range_def times1000_def force_schema_def
  has_key_def get_or_def vega_lite_v5_def

section \<open>Window and sort transforms\<close>

text \<open>
  C6.  When the normalizer returns, for a spec whose \<^verbatim>\<open>transform\<close> is a list: if some step
  of the list is a mapping with a \<^verbatim>\<open>window\<close> or a \<^verbatim>\<open>sort\<close> key, the output has no
  \<^verbatim>\<open>transform\<close> key at all; otherwise the output's \<^verbatim>\<open>transform\<close> is the input's list.
\<close>

theorem window_transform_dropped:
  assumes "clean_vega_spec fl spec = Inr out" and "map_of spec ''transform'' = Some (JList ts)"
  shows "((\<exists>td. JDict td \<in> set ts \<and> (has_key td ''window'' \<or> has_key td ''sort''))
            \<longrightarrow> ''transform'' \<notin> fst ` set out)
       \<and> (\<not> (\<exists>td. JDict td \<in> set ts \<and> (has_key td ''window'' \<or> has_key td ''sort''))
            \<longrightarrow> map_of out ''transform'' = Some (JList ts))"
proof -
  from assms(1) obtain s1 s2 s3 where d: "drop_window_transform spec = Inr s1"
    and c: "clean_empty_sorts s1 = Inr s2" and f: "fix_temporal_data fl s2 = Inr s3"
    and o: "out = force_schema s3"
    by (rule clean_vega_spec_steps)
  have w: "has_window (JList ts)
             = Inr (\<exists>td. JDict td \<in> set ts \<and> (has_key td ''window'' \<or> has_key td ''sort''))"
    by (auto simp: has_window_def list_ex_iff split: json.splits)
  have "map_of out ''transform'' = map_of s1 ''transform''"
    using clean_empty_sorts_other[OF c, of "''transform''"]
      fix_temporal_other[OF f, of "''transform''"] o
    by (simp add: force_schema_lookup)
  moreover have "map_of s1 ''transform''
      = (if \<exists>td. JDict td \<in> set ts \<and> (has_key td ''window'' \<or> has_key td ''sort'')
         then None else Some (JList ts))"
    using d assms(2) w by (auto simp: drop_window_transform_def delete_conv')
  ultimately have r: "map_of out ''transform''
      = (if \<exists>td. JDict td \<in> set ts \<and> (has_key td ''window'' \<or> has_key td ''sort'')
         then None else Some (JList ts))"
    by simp
  show ?thesis
  proof (cases "\<exists>td. JDict td \<in> set ts \<and> (has_key td ''window'' \<or> has_key td ''sort'')")
    case True
    with r have "map_of out ''transform'' = None"
      by simp
    then have "''transform'' \<notin> fst ` set out"
      by (simp add: map_of_eq_None_iff)
    with True show ?thesis
      by simp
  next
    case False
    with r have "map_of out ''transform'' = Some (JList ts)"
      by simp
    with False show ?thesis
      by blast
  qed
qed

theorem window_transform_dropped_witness:
  "clean_vega_spec int_floats
      [(''transform'', JList [JDict [(''window'', JList [])], JDict [(''filter'', JStr ''f'')]]),
       (''mark'', JStr ''bar'')]
     = Inr [(''mark'', JStr ''bar'')]
   \<and> ''transform'' \<notin> fst ` set [(''mark'', JStr ''bar'') :: string \<times> int json]
   \<and> clean_vega_spec int_floats
      [(''transform'', JList [JDict [(''filter'', JStr ''f'')]]), (''mark'', JStr ''bar'')]
     = Inr [(''transform'', JList [JDict [(''filter'', JStr ''f'')]]), (''mark'', JStr ''bar'')]"
proof -
  have run1: "clean_vega_spec int_floats
      [(''transform'', JList [JDict [(''window'', JList [])], JDict [(''filter'', JStr ''f'')]]),
       (''mark'', JStr ''bar'')]
     = Inr [(''mark'', JStr ''bar'')]"
    by (simp add: viz_ev)
  have run2: "clean_vega_spec int_floats
      [(''transform'', JList [JDict [(''filter'', JStr ''f'')]]), (''mark'', JStr ''bar'')]
     = Inr [(''transform'', JList [JDict [(''filter'', JStr ''f'')]]), (''mark'', JStr ''bar'')]"
    by (simp add: viz_ev)
  from window_transform_dropped[OF run1, of "[JDict [(''window'', JList [])], JDict [(''filter'', JStr ''f'')]]"]
       window_transform_dropped[OF run2, of "[JDict [(''filter'', JStr ''f'')]]"] run1 run2
  show ?thesis
    by (simp add: has_key_def)
qed

section \<open>The schema marker\<close>

text \<open>
  C7 (as amended).  When the input has a \<^verbatim>\<open>$schema\<close> key, the output's \<^verbatim>\<open>$schema\<close> is the
  Vega-Lite v5 schema string, whatever the input declared; when the input has no
  \<^verbatim>\<open>$schema\<close> key, the output has none either.
\<close>

theorem schema_forced_when_present:
  assumes "clean_vega_spec fl spec = Inr out"
  shows "(has_key spec ''$schema'' \<longrightarrow> map_of out ''$schema'' = Some (JStr vega_lite_v5))
       \<and> (\<not> has_key spec ''$schema'' \<longrightarrow> \<not> has_key out ''$schema'')"
proof -
  from assms(1) obtain s1 s2 s3 where d: "drop_window_transform spec = Inr s1"
    and c: "clean_empty_sorts s1 = Inr s2" and f: "fix_temporal_data fl s2 = Inr s3"
    and o: "out = force_schema s3"
    by (rule clean_vega_spec_steps)
  have "map_of s3 ''$schema'' = map_of spec ''$schema''"
    using drop_window_other[OF d, of "''$schema''"] clean_empty_sorts_other[OF c, of "''$schema''"]
      fix_temporal_other[OF f, of "''$schema''"]
    by simp
  with o show ?thesis
    by (simp add: force_schema_lookup has_key_def)
qed

text \<open>
  The claim as stated fails: a spec without a \<^verbatim>\<open>$schema\<close> key is returned without one.
\<close>

theorem schema_not_added_counterexample:
  "clean_vega_spec int_floats [(''mark'', JStr ''bar'')] = Inr [(''mark'', JStr ''bar'')]
   \<and> map_of [(''mark'', JStr ''bar'') :: string \<times> int json] ''$schema'' = None"
  by (simp add: viz_ev)

theorem schema_forced_when_present_witness:
  "clean_vega_spec int_floats [(''$schema'', JStr ''v4''), (''mark'', JStr ''bar'')]
     = Inr [(''$schema'', JStr ''https://vega.github.io/schema/vega-lite/v5.json''),
            (''mark'', JStr ''bar'')]
   \<and> has_key [(''$schema'', JStr ''v4''), (''mark'', JStr ''bar'') :: string \<times> int json] ''$schema''
   \<and> map_of [(''$schema'', JStr ''https://vega.github.io/schema/vega-lite/v5.json''),
            (''mark'', JStr ''bar'') :: string \<times> int json] ''$schema''
      = Some (JStr vega_lite_v5)"
proof -
  have run: "clean_vega_spec int_floats [(''$schema'', JStr ''v4''), (''mark'', JStr ''bar'')]
     = Inr [(''$schema'', JStr ''https://vega.github.io/schema/vega-lite/v5.json''),
            (''mark'', JStr ''bar'')]"
    by (simp add: viz_ev)
  from schema_forced_when_present[OF run] run show ?thesis
    by (simp add: has_key_def)
qed

section \<open>One round of the temporal repair\<close>

lemma sample_vals_string: "sample_vals (JStr k) rs = Inr (numeric_cells k rs)"
  by (induction rs) (auto split: json.splits option.splits)

lemma sample_vals_unhashable:
  "field = JList xs \<or> field = JDict d \<Longrightarrow>
   sample_vals field rs = (if list_ex is_dict rs then Inl TypeError else Inr [])"
  by (induction rs) (auto simp: is_dict_def split: json.splits option.splits)

lemma sample_vals_other:
  "field = JNull \<or> field = JBool b \<or> field = JInt n \<or> field = JFloat x \<Longrightarrow>
   sample_vals field rs = Inr []"
  by (induction rs) (auto split: json.splits option.splits)

lemma sample_vals_chars: "sample_vals field (map (\<lambda>c. JStr [c]) s) = Inr []"
  by (induction s) auto

lemma is_number_times1000: "is_number v \<Longrightarrow> is_number (times1000 fl v)"
  by (auto simp: is_number_def times1000_def split: json.splits)

lemma cell_convert_same: "cell k (convert_row fl k row) = map_option (scale fl) (cell k row)"
  by (auto simp: convert_row_def update_conv' split: json.splits option.splits)

lemma cell_convert_other: "k' \<noteq> k \<Longrightarrow> cell k' (convert_row fl k row) = cell k' row"
  by (auto simp: convert_row_def update_conv' split: json.splits option.splits)

lemma numeric_cells_convert_same:
  "numeric_cells k (map (convert_row fl k) rs) = map (times1000 fl) (numeric_cells k rs)"
proof (induction rs)
  case Nil
  then show ?case by simp
next
  case (Cons row rs)
  have "cell k (convert_row fl k row) = map_option (scale fl) (cell k row)"
    by (rule cell_convert_same)
  with Cons show ?case
    by (cases "cell k row") (auto simp: is_number_times1000)
qed

lemma numeric_cells_convert_other:
  "k' \<noteq> k \<Longrightarrow> numeric_cells k' (map (convert_row fl k) rs) = numeric_cells k' rs"
proof (induction rs)
  case Nil
  then show ?case by simp
next
  case (Cons row rs)
  from Cons.prems have "cell k' (convert_row fl k row) = cell k' row"
    by (rule cell_convert_other)
  with Cons show ?case
    by (simp split: option.splits)
qed

lemma is_dict_convert: "is_dict (convert_row fl k row) = is_dict row"
  by (auto simp: convert_row_def is_dict_def split: json.splits option.splits)

lemma dicts_convert: "list_ex is_dict (map (convert_row fl k) rs) = list_ex is_dict rs"
  by (induction rs) (simp_all add: is_dict_convert)

lemma out_of_range_after:
  assumes "\<forall>x. in_seconds fl x \<longrightarrow> \<not> in_seconds fl (times_1000 fl x)"
    and "in_seconds_range fl v"
  shows "\<not> in_seconds_range fl (times1000 fl v)"
  using assms by (auto simp: in_seconds_range_def times1000_def split: json.splits)

lemma no_second_trigger:
  assumes "\<forall>x. in_seconds fl x \<longrightarrow> \<not> in_seconds fl (times_1000 fl x)"
    and "triggers fl k rs"
  shows "\<not> triggers fl k (map (convert_row fl k) rs)"
proof -
  from assms(2) obtain v vs where s: "numeric_cells k (take 5 rs) = v # vs"
    and v: "in_seconds_range fl v"
    by (cases "numeric_cells k (take 5 rs)") (auto simp: triggers_def)
  have "numeric_cells k (take 5 (map (convert_row fl k) rs))
          = map (times1000 fl) (numeric_cells k (take 5 rs))"
    by (simp add: take_map numeric_cells_convert_same)
  with s out_of_range_after[OF assms(1) v] show ?thesis
    by (simp add: triggers_def)
qed

lemma trigger_other:
  "k' \<noteq> k \<Longrightarrow> triggers fl k' (map (convert_row fl k) rs) = triggers fl k' rs"
  by (simp add: triggers_def take_map numeric_cells_convert_other)

lemma fix_field_string:
  "fix_field fl (JList rs) (JStr k)
     = Inr (JList (if triggers fl k rs then map (convert_row fl k) rs else rs))"
  by (simp add: fix_field_def first_rows_def sample_vals_string triggers_def)

lemma fix_field_unhashable:
  "field = JList xs \<or> field = JDict d \<Longrightarrow>
   fix_field fl (JList rs) field
     = (if list_ex is_dict (take 5 rs) then Inl TypeError else Inr (JList rs))"
  by (simp add: fix_field_def first_rows_def sample_vals_unhashable[of field xs d])

lemma fix_field_other:
  "field = JNull \<or> field = JBool b \<or> field = JInt n \<or> field = JFloat x \<Longrightarrow>
   fix_field fl (JList rs) field = Inr (JList rs)"
  by (simp add: fix_field_def first_rows_def sample_vals_other[of field b n x])

lemma fix_field_chars: "fix_field fl (JStr s) field = Inr (JStr s)"
  by (simp add: fix_field_def first_rows_def sample_vals_chars)

lemma fix_field_shape:
  assumes "fix_field fl vals field = Inr vals1"
  shows "(\<exists>s. vals = JStr s \<and> vals1 = vals)
       \<or> (\<exists>rs rs1. vals = JList rs \<and> vals1 = JList rs1 \<and> length rs1 = length rs)"
proof (cases vals)
  case (JList rs)
  show ?thesis
  proof (cases field)
    case (JStr k)
    with JList assms show ?thesis by (auto simp: fix_field_string)
  next
    case (JList xs)
    with \<open>vals = JList rs\<close> assms fix_field_unhashable[of field xs undefined fl rs] show ?thesis
      by (auto split: if_splits)
  next
    case (JDict d)
    with \<open>vals = JList rs\<close> assms fix_field_unhashable[of field undefined d fl rs] show ?thesis
      by (auto split: if_splits)
  qed (use JList assms fix_field_other[of field _ _ _ fl rs] in auto)
next
  case (JStr s)
  with assms show ?thesis by (auto simp: fix_field_chars)
qed (use assms in \<open>auto simp: fix_field_def first_rows_def\<close>)

lemma fix_field_cells:
  assumes "float_ok fl" and "fix_field fl (JList rs) f = Inr (JList rmid)"
  shows "map (cell k) rmid
           = (if f = JStr k \<and> triggers fl k rs
              then map (map_option (scale fl)) (map (cell k) rs) else map (cell k) rs)"
    and "triggers fl k rmid = (triggers fl k rs \<and> f \<noteq> JStr k)"
proof -
  have "map (cell k) rmid
           = (if f = JStr k \<and> triggers fl k rs
              then map (map_option (scale fl)) (map (cell k) rs) else map (cell k) rs)
      \<and> triggers fl k rmid = (triggers fl k rs \<and> f \<noteq> JStr k)"
  proof (cases f)
    case (JStr k')
    show ?thesis
    proof (cases "triggers fl k' rs")
      case True
      with assms(2) JStr have mid: "rmid = map (convert_row fl k') rs"
        by (simp add: fix_field_string)
      show ?thesis
      proof (cases "k' = k")
        case same: True
        from no_second_trigger[OF assms(1) True] mid same have "\<not> triggers fl k rmid"
          by simp
        with True JStr same mid show ?thesis
          by (simp add: cell_convert_same comp_def)
      next
        case False
        then have "k \<noteq> k'" by simp
        with JStr mid show ?thesis
          by (simp add: cell_convert_other trigger_other comp_def)
      qed
    next
      case False
      with assms(2) JStr have "rmid = rs"
        by (simp add: fix_field_string)
      with False JStr show ?thesis
        by auto
    qed
  next
    case (JList xs)
    with assms(2) fix_field_unhashable[of f xs undefined fl rs] have "rmid = rs"
      by (auto split: if_splits)
    with JList show ?thesis by simp
  next
    case (JDict d)
    with assms(2) fix_field_unhashable[of f undefined d fl rs] have "rmid = rs"
      by (auto split: if_splits)
    with JDict show ?thesis by simp
  next
    case JNull
    with assms(2) fix_field_other[of f undefined undefined undefined fl rs] show ?thesis by simp
  next
    case (JBool b)
    with assms(2) fix_field_other[of f b undefined undefined fl rs] show ?thesis by simp
  next
    case (JInt n)
    with assms(2) fix_field_other[of f undefined n undefined fl rs] show ?thesis by simp
  next
    case (JFloat x)
    with assms(2) fix_field_other[of f undefined undefined x fl rs] show ?thesis by simp
  qed
  then show "map (cell k) rmid
           = (if f = JStr k \<and> triggers fl k rs
              then map (map_option (scale fl)) (map (cell k) rs) else map (cell k) rs)"
    and "triggers fl k rmid = (triggers fl k rs \<and> f \<noteq> JStr k)"
    by simp_all
qed

lemma fix_fields_cells:
  assumes "float_ok fl"
  shows "fix_fields fl (JList rs) fs = Inr vals1 \<Longrightarrow>
     \<exists>rs1. vals1 = JList rs1 \<and> length rs1 = length rs \<and>
       (\<forall>k. map (cell k) rs1
              = (if JStr k \<in> set fs \<and> triggers fl k rs
                 then map (map_option (scale fl)) (map (cell k) rs) else map (cell k) rs))"
proof (induction fs arbitrary: rs)
  case Nil
  then show ?case by auto
next
  case (Cons f fs)
  from Cons.prems obtain mid where m: "fix_field fl (JList rs) f = Inr mid"
    and rest: "fix_fields fl mid fs = Inr vals1"
    by (auto split: sum.splits)
  from fix_field_shape[OF m] obtain rmid where mid: "mid = JList rmid"
    and len: "length rmid = length rs"
    by auto
  from Cons.IH[of rmid] rest mid obtain rs1 where v: "vals1 = JList rs1"
    and len1: "length rs1 = length rmid"
    and cells: "\<forall>k. map (cell k) rs1
              = (if JStr k \<in> set fs \<and> triggers fl k rmid
                 then map (map_option (scale fl)) (map (cell k) rmid) else map (cell k) rmid)"
    by blast
  have "map (cell k) rs1
              = (if JStr k \<in> set (f # fs) \<and> triggers fl k rs
                 then map (map_option (scale fl)) (map (cell k) rs) else map (cell k) rs)" for k
  proof -
    note step = fix_field_cells[OF assms m[unfolded mid], of k]
    from cells have c: "map (cell k) rs1
              = (if JStr k \<in> set fs \<and> triggers fl k rmid
                 then map (map_option (scale fl)) (map (cell k) rmid) else map (cell k) rmid)"
      by (rule spec)
    show ?thesis
    proof (cases "f = JStr k")
      case True
      with step c show ?thesis by simp
    next
      case False
      with step c show ?thesis by simp
    qed
  qed
  with v len len1 show ?case
    by simp
qed

lemma quiet_fix_field: "quiet fl f rs \<Longrightarrow> fix_field fl (JList rs) f = Inr (JList rs)"
proof (cases f)
  case (JStr k)
  assume "quiet fl f rs"
  with JStr show ?thesis by (auto simp: quiet_def fix_field_string)
next
  case (JList xs)
  assume "quiet fl f rs"
  with JList fix_field_unhashable[of f xs undefined fl rs] show ?thesis by (simp add: quiet_def)
next
  case (JDict d)
  assume "quiet fl f rs"
  with JDict fix_field_unhashable[of f undefined d fl rs] show ?thesis by (simp add: quiet_def)
next
  case JNull
  with fix_field_other[of f undefined undefined undefined fl rs] show ?thesis by simp
next
  case (JBool b)
  with fix_field_other[of f b undefined undefined fl rs] show ?thesis by simp
next
  case (JInt n)
  with fix_field_other[of f undefined n undefined fl rs] show ?thesis by simp
next
  case (JFloat x)
  with fix_field_other[of f undefined undefined x fl rs] show ?thesis by simp
qed

lemma quiet_convert:
  assumes "f \<noteq> JStr k"
  shows "quiet fl f (map (convert_row fl k) rs) = quiet fl f rs"
proof (cases f)
  case (JStr k')
  with assms have "k' \<noteq> k" by simp
  with JStr show ?thesis by (simp add: quiet_def trigger_other)
qed (simp_all add: quiet_def take_map dicts_convert)

lemma quiet_step:
  assumes "float_ok fl" and "fix_field fl (JList rs) g = Inr (JList rmid)"
    and "f = g \<or> quiet fl f rs"
  shows "quiet fl f rmid"
proof (cases g)
  case (JStr k)
  show ?thesis
  proof (cases "triggers fl k rs")
    case True
    with assms(2) JStr have mid: "rmid = map (convert_row fl k) rs"
      by (simp add: fix_field_string)
    show ?thesis
    proof (cases "f = g")
      case True
      with no_second_trigger[OF assms(1) \<open>triggers fl k rs\<close>] mid JStr show ?thesis
        by (simp add: quiet_def)
    next
      case False
      with assms(3) JStr mid show ?thesis
        by (simp add: quiet_convert)
    qed
  next
    case False
    with assms(2) JStr have "rmid = rs"
      by (simp add: fix_field_string)
    with False assms(3) JStr show ?thesis
      by (auto simp: quiet_def)
  qed
next
  case (JList xs)
  with assms(2) fix_field_unhashable[of g xs undefined fl rs]
  have "rmid = rs \<and> \<not> list_ex is_dict (take 5 rs)"
    by (auto split: if_splits)
  with assms(3) JList show ?thesis by (auto simp: quiet_def)
next
  case (JDict d)
  with assms(2) fix_field_unhashable[of g undefined d fl rs]
  have "rmid = rs \<and> \<not> list_ex is_dict (take 5 rs)"
    by (auto split: if_splits)
  with assms(3) JDict show ?thesis by (auto simp: quiet_def)
next
  case JNull
  with assms(2) fix_field_other[of g undefined undefined undefined fl rs] have "rmid = rs" by simp
  with assms(3) JNull show ?thesis by (auto simp: quiet_def)
next
  case (JBool b)
  with assms(2) fix_field_other[of g b undefined undefined fl rs] have "rmid = rs" by simp
  with assms(3) JBool show ?thesis by (auto simp: quiet_def)
next
  case (JInt n)
  with assms(2) fix_field_other[of g undefined n undefined fl rs] have "rmid = rs" by simp
  with assms(3) JInt show ?thesis by (auto simp: quiet_def)
next
  case (JFloat x)
  with assms(2) fix_field_other[of g undefined undefined x fl rs] have "rmid = rs" by simp
  with assms(3) JFloat show ?thesis by (auto simp: quiet_def)
qed

lemma fix_fields_quiet:
  assumes "float_ok fl"
  shows "fix_fields fl (JList rs) fs = Inr (JList rs1) \<Longrightarrow> f \<in> set fs \<or> quiet fl f rs
         \<Longrightarrow> quiet fl f rs1"
proof (induction fs arbitrary: rs)
  case Nil
  then show ?case by simp
next
  case (Cons g fs)
  from Cons.prems(1) obtain mid where m: "fix_field fl (JList rs) g = Inr mid"
    and rest: "fix_fields fl mid fs = Inr (JList rs1)"
    by (auto split: sum.splits)
  from fix_field_shape[OF m] obtain rmid where mid: "mid = JList rmid"
    by auto
  show ?case
  proof (cases "f = g \<or> quiet fl f rs")
    case True
    with quiet_step[OF assms m[unfolded mid]] have "quiet fl f rmid" by simp
    with Cons.IH[of rmid] rest mid show ?thesis by simp
  next
    case False
    with Cons.prems(2) have "f \<in> set fs" by auto
    with Cons.IH[of rmid] rest mid show ?thesis by simp
  qed
qed

lemma fix_fields_all_quiet:
  "\<forall>f \<in> set fs. quiet fl f rs \<Longrightarrow> fix_fields fl (JList rs) fs = Inr (JList rs)"
  by (induction fs) (simp_all add: quiet_fix_field)

lemma fix_fields_chars: "fix_fields fl (JStr s) fs = Inr (JStr s)"
  by (induction fs) (simp_all add: fix_field_chars)

lemma fix_fields_shape:
  "fix_fields fl vals fs = Inr vals1 \<Longrightarrow>
     (fs = [] \<and> vals1 = vals) \<or> (\<exists>s. vals = JStr s \<and> vals1 = vals)
       \<or> (\<exists>rs rs1. vals = JList rs \<and> vals1 = JList rs1 \<and> length rs1 = length rs)"
proof (induction fs arbitrary: vals)
  case Nil
  then show ?case by simp
next
  case (Cons f fs)
  from Cons.prems obtain mid where m: "fix_field fl vals f = Inr mid"
    and rest: "fix_fields fl mid fs = Inr vals1"
    by (auto split: sum.splits)
  from fix_field_shape[OF m] Cons.IH[OF rest] show ?case
    by (cases fs) auto
qed

lemma fix_fields_twice:
  assumes "float_ok fl" and "fix_fields fl vals fs = Inr vals1"
  shows "fix_fields fl vals1 fs = Inr vals1 \<and> (truthy fl vals \<longrightarrow> truthy fl vals1)"
proof -
  from fix_fields_shape[OF assms(2)]
  consider "fs = []" "vals1 = vals" | s where "vals = JStr s" "vals1 = vals"
    | rs rs1 where "vals = JList rs" "vals1 = JList rs1" "length rs1 = length rs"
    by blast
  then show ?thesis
  proof cases
    case 1
    then show ?thesis by simp
  next
    case 2
    then show ?thesis by (simp add: fix_fields_chars)
  next
    case 3
    with assms(2) have "\<forall>f \<in> set fs. quiet fl f rs1"
      using fix_fields_quiet[OF assms(1), of rs fs rs1] by blast
    then have "fix_fields fl (JList rs1) fs = Inr (JList rs1)"
      by (rule fix_fields_all_quiet)
    with 3 show ?thesis by auto
  qed
qed

section \<open>Seconds to milliseconds\<close>

lemma temporal_field_member:
  assumes "channel \<in> {''x'', ''y'', ''color''}"
    and "map_of enc channel = Some (JDict axis)"
    and "map_of axis ''type'' = Some (JStr ''temporal'')"
    and "map_of axis ''field'' = Some (JStr k)" and "k \<noteq> []"
  shows "JStr k \<in> set (temporal_fields fl enc)"
proof -
  from assms(2-5) have "temporal_field fl enc channel = [JStr k]"
    by (simp add: temporal_field_def get_or_def)
  with assms(1) show ?thesis
    by (auto simp: temporal_fields_def)
qed

lemma fix_temporal_data_cells:
  assumes "float_ok fl"
    and "fix_temporal_data fl spec = Inr out"
    and "map_of spec ''data'' = Some (JDict dd)" and "map_of dd ''values'' = Some (JList rs)"
    and "map_of spec ''encoding'' = Some (JDict enc)"
    and "JStr k \<in> set (temporal_fields fl enc)"
  shows "\<exists>dd1 rs1. map_of out ''data'' = Some (JDict dd1)
      \<and> map_of dd1 ''values'' = Some (JList rs1) \<and> length rs1 = length rs
      \<and> map (cell k) rs1
          = (if triggers fl k rs then map (map_option (scale fl)) (map (cell k) rs)
             else map (cell k) rs)"
proof (cases "rs = []")
  case True
  with assms(2-4) have "out = spec"
    by (simp add: fix_temporal_data_def get_or_def)
  with True assms(3,4) show ?thesis
    by simp
next
  case False
  from assms(6) have ne: "temporal_fields fl enc \<noteq> []"
    by auto
  from False ne assms(2-5) obtain vals1 where
    f: "fix_fields fl (JList rs) (temporal_fields fl enc) = Inr vals1"
    and o: "out = AList.update ''data'' (JDict (AList.update ''values'' vals1 dd)) spec"
    by (auto simp: fix_temporal_data_def get_or_def Let_def split: sum.splits)
  from fix_fields_cells[OF assms(1) f] obtain rs1 where v: "vals1 = JList rs1"
    and len: "length rs1 = length rs"
    and cells: "\<forall>k. map (cell k) rs1
              = (if JStr k \<in> set (temporal_fields fl enc) \<and> triggers fl k rs
                 then map (map_option (scale fl)) (map (cell k) rs) else map (cell k) rs)"
    by blast
  from cells assms(6) have "map (cell k) rs1
          = (if triggers fl k rs then map (map_option (scale fl)) (map (cell k) rs)
             else map (cell k) rs)"
    by simp
  with o v len show ?thesis
    by (simp add: update_conv')
qed

lemma temporal_field_clean_axis:
  "temporal_field fl (clean_axis_sort enc a) c = temporal_field fl enc c"
proof (cases "a = c")
  case True
  then show ?thesis
    by (auto simp: temporal_field_def clean_axis_sort_def get_or_def update_conv' delete_conv'
             split: option.splits json.splits)
next
  case False
  then show ?thesis
    by (auto simp: temporal_field_def clean_axis_sort_def get_or_def update_conv'
             split: option.splits json.splits)
qed

lemma temporal_fields_clean_axis:
  "temporal_fields fl (clean_axis_sort enc a) = temporal_fields fl enc"
  by (simp add: temporal_fields_def temporal_field_clean_axis)

lemma temporal_fields_foldl:
  "temporal_fields fl (foldl clean_axis_sort enc ks) = temporal_fields fl enc"
  by (induction ks arbitrary: enc) (simp_all add: temporal_fields_clean_axis)

lemma clean_empty_sorts_encoding:
  assumes "clean_empty_sorts s1 = Inr s2" and "map_of s1 ''encoding'' = Some (JDict enc)"
  shows "map_of s2 ''encoding''
           = Some (JDict (foldl clean_axis_sort enc [''x'', ''y'', ''color'', ''theta'']))"
  using assms by (auto simp: clean_empty_sorts_def update_conv')


lemma int_floats_ok:
  "\<forall>x. in_seconds int_floats x \<longrightarrow> \<not> in_seconds int_floats (times_1000 int_floats x)"
  by simp



section \<open>Idempotence of the normalizer\<close>

lemma drop_window_stable:
  assumes "drop_window_transform spec = Inr s1"
    and "map_of out ''transform'' = map_of s1 ''transform''"
  shows "drop_window_transform out = Inr out"
proof (cases "map_of spec ''transform''")
  case None
  with assms show ?thesis
    by (simp add: drop_window_transform_def)
next
  case (Some tr)
  with assms(1) obtain found where h: "has_window tr = Inr found"
    and s1: "s1 = (if found then AList.delete ''transform'' spec else spec)"
    by (auto simp: drop_window_transform_def split: sum.splits)
  show ?thesis
  proof (cases found)
    case True
    with s1 assms(2) have "map_of out ''transform'' = None"
      by (simp add: delete_conv')
    then show ?thesis
      by (simp add: drop_window_transform_def)
  next
    case False
    with s1 assms(2) Some have "map_of out ''transform'' = Some tr"
      by simp
    with h False show ?thesis
      by (simp add: drop_window_transform_def)
  qed
qed

lemma clean_axis_sort_dirty:
  "clean_axis_sort enc a
     = (if dirty enc a
        then (case get_or enc a (JDict []) of
                JDict axis \<Rightarrow> AList.update a (JDict (AList.delete ''sort'' axis)) enc
              | _ \<Rightarrow> enc)
        else enc)"
  by (auto simp: clean_axis_sort_def dirty_def split: json.splits option.splits)

lemma not_dirty_after: "\<not> dirty (clean_axis_sort enc a) a"
  by (auto simp: clean_axis_sort_def dirty_def get_or_def update_conv' delete_conv'
           split: json.splits option.splits)

lemma get_or_clean_other: "a \<noteq> b \<Longrightarrow> get_or (clean_axis_sort enc b) a x = get_or enc a x"
  by (auto simp: clean_axis_sort_def get_or_def update_conv' split: json.splits option.splits)

lemma not_dirty_kept: "\<not> dirty enc a \<Longrightarrow> \<not> dirty (clean_axis_sort enc b) a"
proof (cases "a = b")
  case True
  then show ?thesis by (simp add: not_dirty_after)
next
  case False
  assume "\<not> dirty enc a"
  with False show ?thesis
    by (simp add: dirty_def get_or_clean_other)
qed

lemma foldl_not_dirty:
  "a \<in> set ks \<or> \<not> dirty enc a \<Longrightarrow> \<not> dirty (foldl clean_axis_sort enc ks) a"
proof (induction ks arbitrary: enc)
  case Nil
  then show ?case by simp
next
  case (Cons k ks)
  have "a \<in> set ks \<or> \<not> dirty (clean_axis_sort enc k) a"
  proof (cases "a = k")
    case True
    then show ?thesis by (simp add: not_dirty_after)
  next
    case False
    with Cons.prems show ?thesis by (auto simp: not_dirty_kept)
  qed
  from Cons.IH[OF this] show ?case by simp
qed

lemma foldl_clean_settled:
  "\<forall>a \<in> set ks. \<not> dirty enc a \<Longrightarrow> foldl clean_axis_sort enc ks = enc"
  by (induction ks) (simp_all add: clean_axis_sort_dirty)

lemma foldl_clean_twice:
  "foldl clean_axis_sort (foldl clean_axis_sort enc ks) ks = foldl clean_axis_sort enc ks"
  by (rule foldl_clean_settled) (simp add: foldl_not_dirty)

lemma clean_empty_sorts_stable:
  assumes "clean_empty_sorts s1 = Inr s2"
    and "map_of out ''encoding'' = map_of s2 ''encoding''"
  shows "clean_empty_sorts out = Inr out"
proof (cases "map_of s1 ''encoding''")
  case None
  with assms show ?thesis
    by (simp add: clean_empty_sorts_def)
next
  case (Some e)
  with assms(1) obtain enc where e: "e = JDict enc"
    by (cases e) (auto simp: clean_empty_sorts_def)
  from clean_empty_sorts_encoding[OF assms(1) Some[unfolded e]] assms(2)
  have o: "map_of out ''encoding''
           = Some (JDict (foldl clean_axis_sort enc [''x'', ''y'', ''color'', ''theta'']))"
    by simp
  then have "clean_empty_sorts out = Inr (AList.update ''encoding''
       (JDict (foldl clean_axis_sort enc [''x'', ''y'', ''color'', ''theta''])) out)"
    unfolding clean_empty_sorts_def by (simp only: foldl_clean_twice option.case json.case)
  with update_triv[OF o] show ?thesis
    by simp
qed

lemma get_or_cong: "map_of d' k = map_of d k \<Longrightarrow> get_or d' k x = get_or d k x"
  by (simp add: get_or_def)

lemma fix_temporal_stable:
  assumes "float_ok fl" and "fix_temporal_data fl s2 = Inr s3"
    and od: "map_of out ''data'' = map_of s3 ''data''"
    and oe: "map_of out ''encoding'' = map_of s3 ''encoding''"
  shows "fix_temporal_data fl out = Inr out"
proof -
  from assms(2) obtain dd where dd: "get_or s2 ''data'' (JDict []) = JDict dd"
    by (cases "get_or s2 ''data'' (JDict [])") (auto simp: fix_temporal_data_def)
  let ?vals = "get_or dd ''values'' (JList [])"
  have e3: "map_of s3 ''encoding'' = map_of s2 ''encoding''"
    using fix_temporal_other[OF assms(2), of "''encoding''"] by simp
  have oenc: "get_or out ''encoding'' x = get_or s2 ''encoding'' x" for x
    using oe e3 by (simp add: get_or_def)
  show ?thesis
  proof (cases "truthy fl ?vals")
    case False
    with assms(2) dd have "s3 = s2"
      by (simp add: fix_temporal_data_def)
    with od have "get_or out ''data'' (JDict []) = get_or s2 ''data'' (JDict [])"
      by (simp add: get_or_def)
    with dd False show ?thesis
      by (simp add: fix_temporal_data_def)
  next
    case True
    with assms(2) dd obtain enc where enc: "get_or s2 ''encoding'' (JDict []) = JDict enc"
      by (cases "get_or s2 ''encoding'' (JDict [])") (auto simp: fix_temporal_data_def)
    show ?thesis
    proof (cases "temporal_fields fl enc = []")
      case none: True
      with assms(2) dd enc True have "s3 = s2"
        by (simp add: fix_temporal_data_def)
      with od have "get_or out ''data'' (JDict []) = get_or s2 ''data'' (JDict [])"
        by (simp add: get_or_def)
      with dd True enc none oenc show ?thesis
        by (simp add: fix_temporal_data_def)
    next
      case some: False
      with assms(2) dd enc True obtain vals1 where
        f: "fix_fields fl ?vals (temporal_fields fl enc) = Inr vals1"
        and s3: "s3 = AList.update ''data'' (JDict (AList.update ''values'' vals1 dd)) s2"
        by (auto simp: fix_temporal_data_def Let_def split: sum.splits)
      let ?dd1 = "AList.update ''values'' vals1 dd"
      from od s3 have o: "map_of out ''data'' = Some (JDict ?dd1)"
        by (simp add: update_conv')
      then have g: "get_or out ''data'' (JDict []) = JDict ?dd1"
        by (simp add: get_or_def)
      have v: "get_or ?dd1 ''values'' (JList []) = vals1"
        by (simp add: get_or_def update_conv')
      from fix_fields_twice[OF assms(1) f] True
      have again: "fix_fields fl vals1 (temporal_fields fl enc) = Inr vals1"
        and t: "truthy fl vals1"
        by simp_all
      have "fix_temporal_data fl out
              = Inr (AList.update ''data'' (JDict (AList.update ''values'' vals1 ?dd1)) out)"
        using g v t oenc enc some again by (simp add: fix_temporal_data_def)
      also have "AList.update ''values'' vals1 ?dd1 = ?dd1"
        by (rule update_last)
      also have "AList.update ''data'' (JDict ?dd1) out = out"
        using o by (rule update_triv)
      finally show ?thesis .
    qed
  qed
qed

lemma force_schema_twice: "force_schema (force_schema s) = force_schema s"
proof (cases "has_key s ''$schema''")
  case True
  have "map_of (force_schema s) ''$schema'' = Some (JStr vega_lite_v5)"
    using True by (simp add: force_schema_lookup)
  then have "AList.update ''$schema'' (JStr vega_lite_v5) (force_schema s) = force_schema s"
    by (rule update_triv)
  moreover have "has_key (force_schema s) ''$schema''"
    using True by (simp add: has_key_def force_schema_lookup)
  ultimately show ?thesis
    by (simp add: force_schema_def[of "force_schema s"])
next
  case False
  then show ?thesis by (simp add: force_schema_def)
qed

text \<open>
  C5.  Assume that multiplying a float strictly between \<^verbatim>\<open>1e8\<close> and \<^verbatim>\<open>3e9\<close> by 1000 takes it
  out of that range.  Whenever the normalizer returns a spec, normalizing that spec again
  returns it unchanged: no data value is multiplied a second time.
\<close>

theorem clean_vega_spec_idempotent:
  assumes "\<forall>x. in_seconds fl x \<longrightarrow> \<not> in_seconds fl (times_1000 fl x)"
    and "clean_vega_spec fl spec = Inr out"
  shows "clean_vega_spec fl out = Inr out"
proof -
  from assms(2) obtain s1 s2 s3 where d: "drop_window_transform spec = Inr s1"
    and c: "clean_empty_sorts s1 = Inr s2" and f: "fix_temporal_data fl s2 = Inr s3"
    and o: "out = force_schema s3"
    by (rule clean_vega_spec_steps)
  have "map_of out ''transform'' = map_of s1 ''transform''"
    using clean_empty_sorts_other[OF c, of "''transform''"]
      fix_temporal_other[OF f, of "''transform''"] o
    by (simp add: force_schema_lookup)
  with d have 1: "drop_window_transform out = Inr out"
    by (rule drop_window_stable)
  have "map_of out ''encoding'' = map_of s2 ''encoding''"
    using fix_temporal_other[OF f, of "''encoding''"] o
    by (simp add: force_schema_lookup)
  with c have 2: "clean_empty_sorts out = Inr out"
    by (rule clean_empty_sorts_stable)
  have "map_of out ''data'' = map_of s3 ''data''" "map_of out ''encoding'' = map_of s3 ''encoding''"
    using o by (simp_all add: force_schema_lookup)
  with assms(1) f have 3: "fix_temporal_data fl out = Inr out"
    by (rule fix_temporal_stable)
  have 4: "force_schema out = out"
    unfolding o by (rule force_schema_twice)
  from 1 2 3 4 show ?thesis
    by (simp add: clean_vega_spec_def)
qed

theorem clean_vega_spec_idempotent_witness:
  "clean_vega_spec int_floats seconds_spec = Inr milliseconds_spec
   \<and> clean_vega_spec int_floats milliseconds_spec = Inr milliseconds_spec"
proof -
  have run1: "clean_vega_spec int_floats seconds_spec = Inr milliseconds_spec"
    by (simp add: viz_ev)
  from clean_vega_spec_idempotent[OF int_floats_ok run1] run1 show ?thesis
    by simp
qed

end
